theory Spec2Isabelle
  imports Main "HOL-Library.Monad_Syntax"
begin

section \<open>Strings, lines and arrays\<close>

text \<open>
  The extension (\<^verbatim>\<open>src/src/extension.ts\<close>) works on JavaScript strings. A string is
  modelled as a \<^typ>\<open>string\<close>; a \<^typ>\<open>char\<close> stands for one UTF-16 code unit below 256.
  JavaScript numbers that hold line numbers and counters are modelled as \<^typ>\<open>int\<close>: the
  model is exact as long as the values stay below \<open>2^53\<close>, where the doubles of the
  source are exact too.
\<close>

definition newline :: char where
  "newline = CHR 0x0A"

definition is_space :: "char \<Rightarrow> bool" where
  \<comment> \<open>The class \<^verbatim>\<open>\s\<close> of a regular expression, which is also what \<^verbatim>\<open>trim\<close> strips:
      tab, line feed, vertical tab, form feed, carriage return, space, no-break space
      (the members of the class above 255 are outside the model).\<close>
  "is_space c = (c = CHR 0x09 \<or> c = CHR 0x0A \<or> c = CHR 0x0B \<or> c = CHR 0x0C \<or>
                 c = CHR 0x0D \<or> c = CHR 0x20 \<or> c = CHR 0xA0)"

definition is_digit :: "char \<Rightarrow> bool" where
  \<comment> \<open>The class \<^verbatim>\<open>\d\<close>.\<close>
  "is_digit c = ((48::nat) \<le> of_char c \<and> of_char c \<le> (57::nat))"

definition trim :: "string \<Rightarrow> string" where
  \<comment> \<open>\<^verbatim>\<open>String.prototype.trim\<close>\<close>
  "trim s = rev (dropWhile is_space (rev (dropWhile is_space s)))"

fun split_nl :: "string \<Rightarrow> string list" where
  \<comment> \<open>\<^verbatim>\<open>s.split('\n')\<close>: never empty, the empty string gives one empty line.\<close>
  "split_nl [] = [[]]"
| "split_nl (c # cs) =
     (if c = newline then [] # split_nl cs
      else (case split_nl cs of [] \<Rightarrow> [[c]] | l # ls \<Rightarrow> (c # l) # ls))"

fun join_nl :: "string list \<Rightarrow> string" where
  \<comment> \<open>\<^verbatim>\<open>lines.join('\n')\<close>\<close>
  "join_nl [] = []"
| "join_nl [l] = l"
| "join_nl (l # l' # ls) = l @ newline # join_nl (l' # ls)"

definition array_splice :: "int \<Rightarrow> int \<Rightarrow> 'a list \<Rightarrow> 'a list \<Rightarrow> 'a list" where
  \<comment> \<open>The array after \<^verbatim>\<open>xs.splice(start, deleteCount, ...items)\<close>, with the clamping
      of \<^verbatim>\<open>Array.prototype.splice\<close>: a negative start counts from the end, the start is
      clamped to the length, the count to what is left.\<close>
  "array_splice start deleteCount items xs =
     (let len = int (length xs);
          actualStart = (if start < 0 then max (len + start) 0 else min start len);
          actualDeleteCount = min (max deleteCount 0) (len - actualStart)
      in take (nat actualStart) xs @ items @ drop (nat (actualStart + actualDeleteCount)) xs)"

section \<open>The file system\<close>

text \<open>
  A path is the list of its components, the root being the empty list, so that
  \<^verbatim>\<open>path.dirname\<close> is \<^const>\<open>butlast\<close>. The file system holds the regular files with their
  text and the set of directories. Each call of Node's \<^verbatim>\<open>fs\<close> either fails, leaving the
  file system as it was, or succeeds. The failures of the model are those that the
  paths decide: a directory where a file is read or written, a regular file where a
  directory is needed. Failures of the machine (permissions, a full disk) are outside it.
\<close>

type_synonym path = "string list"

record filesystem =
  files :: "path \<rightharpoonup> string"
  dirs :: "path set"

datatype fs_error = EISDIR | ENOTDIR | ENOENT

definition dirname :: "path \<Rightarrow> path" where
  "dirname p = butlast p"

definition is_dir :: "filesystem \<Rightarrow> path \<Rightarrow> bool" where
  "is_dir fs p = (p = [] \<or> p \<in> dirs fs)"

definition existsSync :: "filesystem \<Rightarrow> path \<Rightarrow> bool" where
  "existsSync fs p = (is_dir fs p \<or> files fs p \<noteq> None)"

fun ancestors :: "path \<Rightarrow> path list" where
  \<comment> \<open>The path and the directories above it, the root left out.\<close>
  "ancestors [] = []"
| "ancestors (c # cs) = [c] # map ((#) c) (ancestors cs)"

definition mkdirSync :: "filesystem \<Rightarrow> path \<Rightarrow> fs_error + filesystem" where
  \<comment> \<open>\<^verbatim>\<open>fs.mkdirSync(d, { recursive: true })\<close>: creates the directory and the missing
      ones above it; fails when a regular file is in the way.\<close>
  "mkdirSync fs d =
     (if list_ex (\<lambda>q. files fs q \<noteq> None) (ancestors d) then Inl ENOTDIR
      else Inr (fs\<lparr>dirs := dirs fs \<union> set (ancestors d)\<rparr>))"

definition readFileSync :: "filesystem \<Rightarrow> path \<Rightarrow> fs_error + string" where
  "readFileSync fs p =
     (if is_dir fs p then Inl EISDIR
      else (case files fs p of None \<Rightarrow> Inl ENOENT | Some c \<Rightarrow> Inr c))"

definition writeFileSync :: "filesystem \<Rightarrow> path \<Rightarrow> string \<Rightarrow> fs_error + filesystem" where
  "writeFileSync fs p c =
     (if is_dir fs p then Inl EISDIR
      else if \<not> is_dir fs (dirname p) then Inl ENOTDIR
      else Inr (fs\<lparr>files := (files fs)(p \<mapsto> c)\<rparr>))"

definition appendFileSync :: "filesystem \<Rightarrow> path \<Rightarrow> string \<Rightarrow> fs_error + filesystem" where
  "appendFileSync fs p c =
     (if is_dir fs p then Inl EISDIR
      else if \<not> is_dir fs (dirname p) then Inl ENOTDIR
      else Inr (fs\<lparr>files := (files fs)(p \<mapsto> (case files fs p of None \<Rightarrow> c | Some old \<Rightarrow> old @ c))\<rparr>))"

section \<open>The patch engine: applying a block\<close>

record CodeBlock =
  id' :: string
  filePath :: path
  startLine :: int
  endLine :: int
  content :: string
  type' :: string

record FileModification =
  fm_filePath :: path
  blocks :: "CodeBlock list"
  operation :: string

text \<open>
  The body of the \<^verbatim>\<open>switch\<close> of \<^verbatim>\<open>_handleFileModification\<close> for one block. The local
  variables \<^verbatim>\<open>existingContent\<close> and \<^verbatim>\<open>existingLines\<close> are read once, before the loop over
  the blocks; \<^verbatim>\<open>splice\<close> updates \<^verbatim>\<open>existingLines\<close> in place, so the lines travel with the
  file system from block to block. An operation that is none of the four names falls
  through the \<^verbatim>\<open>switch\<close>. A failed call of \<^verbatim>\<open>fs\<close> throws: the value is \<open>Inl\<close> of the error
  and of the file system at that moment.
\<close>

definition apply_block ::
  "string \<Rightarrow> path \<Rightarrow> string \<Rightarrow> CodeBlock \<Rightarrow> string list \<times> filesystem \<Rightarrow>
     (fs_error \<times> filesystem) + (string list \<times> filesystem)" where
  "apply_block op p existingContent block st =
     (case st of (existingLines, fs) \<Rightarrow>
      if op = ''append'' then
        (case (if existingContent = [] then writeFileSync fs p (content block)
               else appendFileSync fs p (newline # content block)) of
           Inl e \<Rightarrow> Inl (e, fs)
         | Inr fs' \<Rightarrow> Inr (existingLines, fs'))
      else if op = ''modify'' then
        (if startLine block > 0 \<and> endLine block \<le> int (length existingLines) then
           (let ls = array_splice (startLine block - 1) (endLine block - startLine block + 1)
                        [content block] existingLines
            in case writeFileSync fs p (join_nl ls) of
                 Inl e \<Rightarrow> Inl (e, fs)
               | Inr fs' \<Rightarrow> Inr (ls, fs'))
         else Inr (existingLines, fs))
      else if op = ''insert'' then
        (if startLine block > 0 then
           (let ls = array_splice (startLine block - 1) 0 [content block] existingLines
            in case writeFileSync fs p (join_nl ls) of
                 Inl e \<Rightarrow> Inl (e, fs)
               | Inr fs' \<Rightarrow> Inr (ls, fs'))
         else Inr (existingLines, fs))
      else if op = ''delete'' then
        (if startLine block > 0 \<and> endLine block \<le> int (length existingLines) then
           (let ls = array_splice (startLine block - 1) (endLine block - startLine block + 1)
                        [] existingLines
            in case writeFileSync fs p (join_nl ls) of
                 Inl e \<Rightarrow> Inl (e, fs)
               | Inr fs' \<Rightarrow> Inr (ls, fs'))
         else Inr (existingLines, fs))
      else Inr (existingLines, fs))"

fun apply_blocks ::
  "string \<Rightarrow> path \<Rightarrow> string \<Rightarrow> CodeBlock list \<Rightarrow> string list \<times> filesystem \<Rightarrow>
     (fs_error \<times> filesystem) + (string list \<times> filesystem)" where
  \<comment> \<open>\<^verbatim>\<open>for (const block of blocks)\<close>\<close>
  "apply_blocks op p existingContent [] st = Inr st"
| "apply_blocks op p existingContent (b # bs) st =
     (case apply_block op p existingContent b st of
        Inl e \<Rightarrow> Inl e
      | Inr st' \<Rightarrow> apply_blocks op p existingContent bs st')"

definition read_existing :: "filesystem \<Rightarrow> path \<Rightarrow> fs_error + (string \<times> string list)" where
  \<comment> \<open>\<^verbatim>\<open>existingContent\<close> and \<^verbatim>\<open>existingLines\<close>: empty, with no line at all, when nothing
      is at the path.\<close>
  "read_existing fs p =
     (if existsSync fs p then
        (case readFileSync fs p of
           Inl e \<Rightarrow> Inl e
         | Inr c \<Rightarrow> Inr (c, split_nl c))
      else Inr ([], []))"

definition handleFileModification ::
  "FileModification \<Rightarrow> filesystem \<Rightarrow> (fs_error \<times> filesystem) + filesystem" where
  "handleFileModification modification fs =
     (let p = fm_filePath modification;
          directory = dirname p
      in case (if \<not> existsSync fs directory then mkdirSync fs directory else Inr fs) of
           Inl e \<Rightarrow> Inl (e, fs)
         | Inr fs1 \<Rightarrow>
             (case read_existing fs1 p of
                Inl e \<Rightarrow> Inl (e, fs1)
              | Inr (existingContent, existingLines) \<Rightarrow>
                  (case apply_blocks (operation modification) p existingContent
                          (blocks modification) (existingLines, fs1) of
                     Inl e \<Rightarrow> Inl e
                   | Inr (ls, fs2) \<Rightarrow> Inr fs2)))"

section \<open>The patch engine: finding the blocks\<close>

text \<open>
  \<^verbatim>\<open>_saveGeneratedCode\<close> scans the generated text with one regular expression: a line
  of fifty dashes, the metadata object with its four keys in a fixed order, the content
  up to the next fifty dashes. The expression is matched from left to right by the
  functions below, one for each of its parts. No part needs backtracking: \<^verbatim>\<open>\s*\<close>,
  \<^verbatim>\<open>[^"]+\<close> and \<^verbatim>\<open>\d+\<close> are each followed by a character outside their class, so
  the longest run is the only one that can match, and the lazy \<^verbatim>\<open>[\s\S]*?\<close> stops at the
  first fifty dashes, which a shorter \<^verbatim>\<open>\s*\<close> before it cannot bring nearer.
\<close>

definition dashes :: string where
  "dashes = ''--------------------------------------------------''"

definition lit :: "string \<Rightarrow> string \<Rightarrow> string option" where
  \<comment> \<open>A literal part of the expression: the rest of the text behind it.\<close>
  "lit p s = (if take (length p) s = p then Some (drop (length p) s) else None)"

definition spaces :: "string \<Rightarrow> string" where
  \<comment> \<open>\<^verbatim>\<open>\s*\<close>\<close>
  "spaces s = dropWhile is_space s"

definition many1 :: "(char \<Rightarrow> bool) \<Rightarrow> string \<Rightarrow> (string \<times> string) option" where
  \<comment> \<open>A class with \<^verbatim>\<open>+\<close>: the longest run, which must not be empty, and the rest.\<close>
  "many1 P s = (case takeWhile P s of [] \<Rightarrow> None | x # xs \<Rightarrow> Some (x # xs, dropWhile P s))"

fun lazy_until_dashes :: "string \<Rightarrow> (string \<times> string) option" where
  \<comment> \<open>\<^verbatim>\<open>([\s\S]*?)\<close> and the closing dashes: the text before the first fifty dashes,
      and what follows them.\<close>
  "lazy_until_dashes [] = None"
| "lazy_until_dashes (c # cs) =
     (case lit dashes (c # cs) of
        Some rest \<Rightarrow> Some ([], rest)
      | None \<Rightarrow> (case lazy_until_dashes cs of
                   None \<Rightarrow> None
                 | Some (code, rest) \<Rightarrow> Some (c # code, rest)))"

record block_match =
  m_filePath :: string
  m_blockId :: string
  m_startLineStr :: string
  m_operation :: string
  m_code :: string

definition not_quote :: "char \<Rightarrow> bool" where
  "not_quote c = (c \<noteq> CHR 0x22)"

definition match_here :: "string \<Rightarrow> (block_match \<times> string) option" where
  \<comment> \<open>The expression matched at the start of the text: its five groups and the text
      behind the match.\<close>
  \<open>match_here s0 = do {
     s \<leftarrow> lit dashes s0;
     s \<leftarrow> lit ''{'' (spaces s);
     s \<leftarrow> lit ''"file":'' (spaces s);
     s \<leftarrow> lit ''"'' (spaces s);
     (fp, s) \<leftarrow> many1 not_quote s;
     s \<leftarrow> lit ''",'' s;
     s \<leftarrow> lit ''"blockId":'' (spaces s);
     s \<leftarrow> lit ''"'' (spaces s);
     (bid, s) \<leftarrow> many1 not_quote s;
     s \<leftarrow> lit ''",'' s;
     s \<leftarrow> lit ''"startLine":'' (spaces s);
     (num, s) \<leftarrow> many1 is_digit (spaces s);
     s \<leftarrow> lit '','' s;
     s \<leftarrow> lit ''"operation":'' (spaces s);
     s \<leftarrow> lit ''"'' (spaces s);
     (opn, s) \<leftarrow> many1 not_quote s;
     s \<leftarrow> lit ''"'' s;
     s \<leftarrow> lit ''}'' (spaces s);
     (code, s) \<leftarrow> lazy_until_dashes (spaces s);
     Some (\<lparr>m_filePath = fp, m_blockId = bid, m_startLineStr = num,
             m_operation = opn, m_code = code\<rparr>, s)
   }\<close>

fun exec :: "string \<Rightarrow> (block_match \<times> string) option" where
  \<comment> \<open>\<^verbatim>\<open>codeBlockRegex.exec(content)\<close> on the text from \<^verbatim>\<open>lastIndex\<close> on: the leftmost
      match, and the text behind it, where the next search starts.\<close>
  "exec [] = None"
| "exec (c # cs) =
     (case match_here (c # cs) of
        Some r \<Rightarrow> Some r
      | None \<Rightarrow> exec cs)"

definition digits_value :: "string \<Rightarrow> int" where
  \<comment> \<open>The number that a string of decimal digits writes.\<close>
  "digits_value ds = foldl (\<lambda>n c. 10 * n + (int (of_char c) - 48)) 0 ds"

definition parseInt :: "string \<Rightarrow> int option" where
  \<comment> \<open>\<^verbatim>\<open>parseInt\<close> on the text of a group \<^verbatim>\<open>(\d+)\<close>: the value of the leading digits,
      \<open>None\<close> for \<^verbatim>\<open>NaN\<close>. (Leading blanks, a sign and a hexadecimal prefix, which
      \<^verbatim>\<open>parseInt\<close> reads too, cannot stand in that group.)\<close>
  "parseInt s =
     (case takeWhile is_digit s of
        [] \<Rightarrow> None
      | d # ds \<Rightarrow> Some (digits_value (d # ds)))"

text \<open>
  Node's \<^verbatim>\<open>path\<close> module is not part of the repository. The two functions of it that
  \<^verbatim>\<open>_saveGeneratedCode\<close> calls are parameters of the model:
  \<open>join_output f\<close> is \<^verbatim>\<open>path.join(this._outputPath, f)\<close>, as a list of components.
\<close>

record pathlib =
  join_output :: "string \<Rightarrow> path"
  extname :: "string \<Rightarrow> string"

text \<open>
  The state of the panel: the transcript, the two counters, the map of the blocks seen,
  and the disk. \<open>calls\<close> is not a field of the class: it records, for every call of the
  chat service, whether it was a generate call (\<^verbatim>\<open>isGenerator\<close>).
\<close>

datatype role = System | User | Assistant

record message =
  role :: role
  text_of :: string

record panel =
  conversationHistory :: "message list"
  currentIteration :: int
  maxIterations :: int
  codeBlocks :: "string \<rightharpoonup> CodeBlock"
  disk :: filesystem
  calls :: "bool list"

definition file_type :: "pathlib \<Rightarrow> string \<Rightarrow> string" where
  \<comment> \<open>\<^verbatim>\<open>path.extname(filePath).slice(1) || 'txt'\<close>\<close>
  "file_type lib f = (let e = drop 1 (extname lib f) in if e = [] then ''txt'' else e)"

definition code_block_of :: "pathlib \<Rightarrow> block_match \<Rightarrow> int \<Rightarrow> CodeBlock" where
  "code_block_of lib m n =
     \<lparr>id' = m_blockId m,
      filePath = join_output lib (m_filePath m),
      startLine = n,
      endLine = n + int (length (split_nl (trim (m_code m)))),
      content = trim (m_code m),
      type' = file_type lib (m_filePath m)\<rparr>"

definition process_match :: "pathlib \<Rightarrow> block_match \<Rightarrow> panel \<Rightarrow> panel" where
  \<comment> \<open>The body of the loop of \<^verbatim>\<open>_saveGeneratedCode\<close>. An error thrown inside is caught
      and logged, and the loop goes on.\<close>
  "process_match lib m st =
     (case parseInt (m_startLineStr m) of
        None \<Rightarrow> st
      | Some n \<Rightarrow>
          (let codeBlock = code_block_of lib m n;
               st1 = st\<lparr>codeBlocks := (codeBlocks st)(m_blockId m \<mapsto> codeBlock)\<rparr>
           in case handleFileModification
                     \<lparr>fm_filePath = filePath codeBlock, blocks = [codeBlock],
                      operation = m_operation m\<rparr> (disk st1) of
                Inl (e, fs') \<Rightarrow> st1\<lparr>disk := fs'\<rparr>
              | Inr fs' \<Rightarrow> st1\<lparr>disk := fs'\<rparr>))"

lemma lazy_until_dashes_shorter:
  "lazy_until_dashes s = Some (c, r) \<Longrightarrow> length r < length s"
proof (induction s arbitrary: c r)
  case Nil
  then show ?case by simp
next
  case (Cons a s)
  show ?case
  proof (cases "lit dashes (a # s)")
    case (Some rest)
    with Cons.prems have "r = rest" by simp
    with Some show ?thesis
      by (auto simp: lit_def dashes_def split: if_splits)
  next
    case None
    with Cons.prems obtain c' where "lazy_until_dashes s = Some (c', r)"
      by (auto split: option.splits)
    from Cons.IH [OF this] show ?thesis by simp
  qed
qed

lemma lit_shorter: "lit p s = Some r \<Longrightarrow> length r \<le> length s"
  by (auto simp: lit_def split: if_splits)

lemma lit_spaces_shorter: "lit p (spaces s) = Some r \<Longrightarrow> length r \<le> length s"
  using lit_shorter [of p "spaces s" r] length_dropWhile_le [of is_space s]
  by (simp add: spaces_def)

lemma many1_shorter: "many1 P s = Some (x, r) \<Longrightarrow> length r \<le> length s"
  by (auto simp: many1_def length_dropWhile_le split: list.splits)

lemma many1_spaces_shorter: "many1 P (spaces s) = Some (x, r) \<Longrightarrow> length r \<le> length s"
  using many1_shorter [of P "spaces s" x r] length_dropWhile_le [of is_space s]
  by (simp add: spaces_def)

lemma lazy_spaces_shorter:
  "lazy_until_dashes (spaces s) = Some (c, r) \<Longrightarrow> length r < length s"
  using lazy_until_dashes_shorter [of "spaces s" c r] length_dropWhile_le [of is_space s]
  by (simp add: spaces_def)

lemma match_here_shorter: "match_here s = Some (m, r) \<Longrightarrow> length r < length s"
  unfolding match_here_def
  apply (clarsimp split: bind_splits)
  apply (drule lit_spaces_shorter many1_spaces_shorter lazy_spaces_shorter)+
  apply (drule lit_shorter many1_shorter)+
  apply linarith
  done

lemma exec_shorter: "exec s = Some (m, r) \<Longrightarrow> length r < length s"
proof (induction s)
  case Nil
  then show ?case by simp
next
  case (Cons a s)
  then show ?case
    by (cases "match_here (a # s)") (auto dest: match_here_shorter)
qed

function saveGeneratedCode :: "pathlib \<Rightarrow> string \<Rightarrow> panel \<Rightarrow> panel" where
  \<comment> \<open>\<^verbatim>\<open>while ((match = codeBlockRegex.exec(content)) !== null)\<close>\<close>
  "saveGeneratedCode lib blob st =
     (case exec blob of
        None \<Rightarrow> st
      | Some (m, rest) \<Rightarrow> saveGeneratedCode lib rest (process_match lib m st))"
  by pat_completeness auto
termination
  by (relation "measure (\<lambda>(lib, blob, st). length blob)") (auto dest: exec_shorter)

declare saveGeneratedCode.simps [simp del]

section \<open>The conversation driver\<close>

text \<open>
  The chat service is outside the repository: it is a parameter, a function of the
  messages sent (the system prompt, the transcript so far, the user message). It either
  fails, and the call throws, or answers with the content of the first choice, which may
  be missing. The texts of the prompts are parameters too: the two copies of the
  extension in the repository differ in nothing else. The web view, which shows the
  transcript after every call and takes no part in the run, is left out.
\<close>

datatype service_error = ServiceError

type_synonym service = "message list \<Rightarrow> service_error + string option"

record prompts =
  generator_template :: "string \<Rightarrow> string"
  generate_template :: "string \<Rightarrow> string"
  enhance_instruction :: string
  review_template :: "string \<Rightarrow> string"
  request_template :: "string \<Rightarrow> string \<Rightarrow> string"

definition generateResponse ::
  "service \<Rightarrow> string \<Rightarrow> string \<Rightarrow> bool \<Rightarrow> panel \<Rightarrow> panel + (string \<times> panel)" where
  \<comment> \<open>\<open>Inl\<close>: the call of the service threw, in the state given.\<close>
  "generateResponse svc systemPrompt userMessage isGenerator st =
     (let st1 = st\<lparr>calls := calls st @ [isGenerator]\<rparr>
      in case svc (\<lparr>role = System, text_of = systemPrompt\<rparr> # conversationHistory st1 @
                     [\<lparr>role = User, text_of = userMessage\<rparr>]) of
           Inl e \<Rightarrow> Inl st1
         | Inr c \<Rightarrow>
             (let aiResponse = (case c of
                                  None \<Rightarrow> ''No response generated''
                                | Some t \<Rightarrow> if t = [] then ''No response generated'' else t)
              in Inr (aiResponse,
                      st1\<lparr>conversationHistory := conversationHistory st1 @
                            [\<lparr>role = User, text_of = userMessage\<rparr>,
                             \<lparr>role = Assistant, text_of = aiResponse\<rparr>]\<rparr>)))"

definition round_body ::
  "prompts \<Rightarrow> pathlib \<Rightarrow> service \<Rightarrow> string \<Rightarrow> string \<Rightarrow> panel \<Rightarrow> panel + (string \<times> panel)" where
  \<comment> \<open>The body of the loop of \<^verbatim>\<open>_generateAndReview\<close>: one round. The value holds the
      \<^verbatim>\<open>request\<close> of the next round.\<close>
  "round_body P lib svc prompt request st =
     (case generateResponse svc
             (generate_template P
                (if currentIteration st = 0 then prompt else enhance_instruction P))
             request True st of
        Inl st1 \<Rightarrow> Inl st1
      | Inr (response, st1) \<Rightarrow>
          (let st2 = (if response \<noteq> [] then saveGeneratedCode lib response st1 else st1)
           in if currentIteration st2 < maxIterations st2 - 1 then
                (case generateResponse svc (review_template P response) [] False st2 of
                   Inl st3 \<Rightarrow> Inl st3
                 | Inr (review, st3) \<Rightarrow>
                     Inr (if review \<noteq> [] then request_template P response review else request,
                          st3\<lparr>currentIteration := currentIteration st3 + 1\<rparr>))
              else Inr (request, st2\<lparr>currentIteration := currentIteration st2 + 1\<rparr>)))"

lemma process_match_counters:
  "currentIteration (process_match lib m st) = currentIteration st \<and>
   maxIterations (process_match lib m st) = maxIterations st \<and>
   conversationHistory (process_match lib m st) = conversationHistory st \<and>
   calls (process_match lib m st) = calls st"
  by (simp add: process_match_def Let_def split: option.splits sum.splits prod.splits)

lemma saveGeneratedCode_counters:
  "currentIteration (saveGeneratedCode lib blob st) = currentIteration st \<and>
   maxIterations (saveGeneratedCode lib blob st) = maxIterations st \<and>
   conversationHistory (saveGeneratedCode lib blob st) = conversationHistory st \<and>
   calls (saveGeneratedCode lib blob st) = calls st"
proof (induction lib blob st rule: saveGeneratedCode.induct)
  case (1 lib blob st)
  show ?case
  proof (cases "exec blob")
    case None
    then show ?thesis by (simp add: saveGeneratedCode.simps [of lib blob st])
  next
    case (Some r)
    obtain m rest where r: "r = (m, rest)" by (cases r)
    with Some have e: "exec blob = Some (m, rest)" by simp
    from "1.IH" [OF e refl] e show ?thesis
      by (simp add: saveGeneratedCode.simps [of lib blob st] process_match_counters)
  qed
qed

lemma generateResponse_counters:
  "generateResponse svc sp um g st = Inr (a, st') \<Longrightarrow>
     currentIteration st' = currentIteration st \<and> maxIterations st' = maxIterations st"
  by (auto simp: generateResponse_def Let_def split: sum.splits)

lemma round_body_counters:
  "round_body P lib svc prompt request st = Inr (request', st') \<Longrightarrow>
     currentIteration st' = currentIteration st + 1 \<and> maxIterations st' = maxIterations st"
  by (auto simp: round_body_def Let_def saveGeneratedCode_counters
      split: sum.splits prod.splits if_splits dest!: generateResponse_counters)

function generateAndReview ::
  "prompts \<Rightarrow> pathlib \<Rightarrow> service \<Rightarrow> string \<Rightarrow> string \<Rightarrow> panel \<Rightarrow> panel + panel" where
  \<comment> \<open>\<^verbatim>\<open>while (this._currentIteration < this._maxIterations)\<close>; \<open>Inl\<close> when a call of
      the service threw.\<close>
  "generateAndReview P lib svc prompt request st =
     (if currentIteration st < maxIterations st then
        (case round_body P lib svc prompt request st of
           Inl st' \<Rightarrow> Inl st'
         | Inr (request', st') \<Rightarrow> generateAndReview P lib svc prompt request' st')
      else Inr st)"
  by pat_completeness auto
termination
  by (relation "measure (\<lambda>(P, lib, svc, prompt, request, st).
                  nat (maxIterations st - currentIteration st))")
     (auto dest!: round_body_counters)

declare generateAndReview.simps [simp del]

definition startCodeGeneration ::
  "prompts \<Rightarrow> pathlib \<Rightarrow> service \<Rightarrow> string \<Rightarrow> panel \<Rightarrow> panel + panel" where
  \<comment> \<open>\<open>Inl\<close>: the run was aborted and the error message shown in the panel.\<close>
  "startCodeGeneration P lib svc codeRequest st =
     generateAndReview P lib svc (generator_template P codeRequest) codeRequest
       (st\<lparr>currentIteration := 0, conversationHistory := []\<rparr>)"

definition continueConversation ::
  "prompts \<Rightarrow> pathlib \<Rightarrow> service \<Rightarrow> string \<Rightarrow> int \<Rightarrow> panel \<Rightarrow> panel + panel" where
  \<comment> \<open>The handler of the message \<^verbatim>\<open>continueConversation\<close>: one conversation run with
      the iteration budget given.\<close>
  "continueConversation P lib svc codeRequest iterations st =
     (if codeRequest \<noteq> [] \<and> iterations \<noteq> 0 then
        startCodeGeneration P lib svc codeRequest (st\<lparr>maxIterations := iterations\<rparr>)
      else Inr st)"

section \<open>Notions used in the statements\<close>

text \<open>
  What \<^verbatim>\<open>_handleFileModification\<close> finds at a path: the text and the lines of the file
  there (\<^verbatim>\<open>existingContent\<close>, \<^verbatim>\<open>existingLines\<close>), both empty when there is none. A path is
  writable when no call of \<^verbatim>\<open>fs\<close> on it can fail: it is not a directory, and no regular
  file stands where a directory above it is needed. \<open>with_parent\<close> is the file system
  once the missing directories above the path are created.
\<close>

definition writable :: "filesystem \<Rightarrow> path \<Rightarrow> bool" where
  "writable fs p = (\<not> is_dir fs p \<and> \<not> list_ex (\<lambda>q. files fs q \<noteq> None) (ancestors (dirname p)))"

definition existing_content :: "filesystem \<Rightarrow> path \<Rightarrow> string" where
  "existing_content fs p = (case files fs p of None \<Rightarrow> [] | Some c \<Rightarrow> c)"

definition existing_lines :: "filesystem \<Rightarrow> path \<Rightarrow> string list" where
  "existing_lines fs p = (case files fs p of None \<Rightarrow> [] | Some c \<Rightarrow> split_nl c)"

definition with_parent :: "filesystem \<Rightarrow> path \<Rightarrow> filesystem" where
  "with_parent fs p =
     (if existsSync fs (dirname p) then fs
      else fs\<lparr>dirs := dirs fs \<union> set (ancestors (dirname p))\<rparr>)"

definition outcome :: "(fs_error \<times> filesystem) + filesystem \<Rightarrow> filesystem" where
  "outcome r = (case r of Inl (e, fs') \<Rightarrow> fs' | Inr fs' \<Rightarrow> fs')"

text \<open>
  Concrete inputs for the examples: Node's \<^verbatim>\<open>path\<close> module on relative paths with no
  \<^verbatim>\<open>..\<close> component, a panel as the constructor leaves it, and a disk with one file.
\<close>

fun split_slash :: "string \<Rightarrow> string list" where
  "split_slash [] = [[]]"
| "split_slash (c # cs) =
     (if c = CHR ''/'' then [] # split_slash cs
      else (case split_slash cs of [] \<Rightarrow> [[c]] | l # ls \<Rightarrow> (c # l) # ls))"

definition node_path :: "path \<Rightarrow> pathlib" where
  "node_path out =
     \<lparr>join_output = (\<lambda>f. out @ filter (\<lambda>c. c \<noteq> [] \<and> c \<noteq> ''.'') (split_slash f)),
      extname = (\<lambda>f. let b = last (split_slash f)
                      in if CHR ''.'' \<in> set (drop 1 b)
                         then CHR ''.'' # rev (takeWhile (\<lambda>c. c \<noteq> CHR ''.'') (rev b))
                         else [])\<rparr>"

definition fresh_panel :: "filesystem \<Rightarrow> panel" where
  "fresh_panel fs =
     \<lparr>conversationHistory = [], currentIteration = 0, maxIterations = 10000,
      codeBlocks = Map.empty, disk = fs, calls = []\<rparr>"

definition single_file :: "path \<Rightarrow> string \<Rightarrow> filesystem" where
  "single_file p c = \<lparr>files = [p \<mapsto> c], dirs = set (ancestors (dirname p))\<rparr>"

definition lines_at :: "panel \<Rightarrow> path \<Rightarrow> string list option" where
  "lines_at st p = map_option split_nl (files (disk st) p)"

definition example_block :: "string \<Rightarrow> string \<Rightarrow> string \<Rightarrow> block_match" where
  "example_block n opn code =
     \<lparr>m_filePath = ''f.txt'', m_blockId = ''b1'', m_startLineStr = n, m_operation = opn,
      m_code = code\<rparr>"

definition example_panel :: "string list \<Rightarrow> panel" where
  "example_panel ls = fresh_panel (single_file [''out'', ''f.txt''] (join_nl ls))"

definition empty_disk :: filesystem where
  "empty_disk = \<lparr>files = Map.empty, dirs = {[''out'']}\<rparr>"

text \<open>
  The text of a block, as the generator is told to write it: fifty dashes, the metadata
  object with blanks wherever the expression allows them (\<open>bt_blank\<close> gives the blanks at
  each of the ten places), the body up to the closing dashes. A block is well formed when
  the blanks are blanks, the three names are not empty and hold no double quote, the
  start line is a string of digits, and the body holds no fifty dashes and does not end
  with a dash, which would run into the closing line. Text around the blocks is free of
  the delimiter in the same sense. \<open>scan\<close> lists the matches that the loop of
  \<^verbatim>\<open>_saveGeneratedCode\<close> finds, \<open>extracted\<close> the blocks it builds from them, with their
  operations, and \<open>handle_block\<close> is what the loop does with each.
\<close>

record block_text =
  bt_file :: string
  bt_blockId :: string
  bt_startLine :: string
  bt_operation :: string
  bt_body :: string
  bt_blank :: "nat \<Rightarrow> string"

definition header :: "block_text \<Rightarrow> string" where
  \<open>header t =
     bt_blank t 0 @ ''{'' @ bt_blank t 1 @ ''"file":'' @ bt_blank t 2 @ ''"'' @ bt_file t @ ''",'' @
     bt_blank t 3 @ ''"blockId":'' @ bt_blank t 4 @ ''"'' @ bt_blockId t @ ''",'' @
     bt_blank t 5 @ ''"startLine":'' @ bt_blank t 6 @ bt_startLine t @ '','' @
     bt_blank t 7 @ ''"operation":'' @ bt_blank t 8 @ ''"'' @ bt_operation t @ ''"'' @
     bt_blank t 9 @ ''}''\<close>

definition render :: "block_text \<Rightarrow> string" where
  "render t = dashes @ header t @ bt_body t @ dashes"

fun contains_dashes :: "string \<Rightarrow> bool" where
  "contains_dashes [] = False"
| "contains_dashes (c # cs) = (lit dashes (c # cs) \<noteq> None \<or> contains_dashes cs)"

definition delimiter_free :: "string \<Rightarrow> bool" where
  "delimiter_free s = ((s = [] \<or> last s \<noteq> CHR ''-'') \<and> \<not> contains_dashes s)"

definition blanks_ok :: "block_text \<Rightarrow> bool" where
  "blanks_ok t = list_all (\<lambda>i. list_all is_space (bt_blank t i)) [0..<10]"

definition name_ok :: "string \<Rightarrow> bool" where
  "name_ok s = (s \<noteq> [] \<and> list_all not_quote s)"

definition numeric :: "string \<Rightarrow> bool" where
  "numeric s = (s \<noteq> [] \<and> list_all is_digit s)"

definition well_formed :: "block_text \<Rightarrow> bool" where
  "well_formed t =
     (blanks_ok t \<and> name_ok (bt_file t) \<and> name_ok (bt_blockId t) \<and> numeric (bt_startLine t) \<and>
      name_ok (bt_operation t) \<and> delimiter_free (bt_body t))"

definition match_of :: "block_text \<Rightarrow> block_match" where
  "match_of t =
     \<lparr>m_filePath = bt_file t, m_blockId = bt_blockId t, m_startLineStr = bt_startLine t,
      m_operation = bt_operation t, m_code = spaces (bt_body t)\<rparr>"

fun starts_nowhere :: "string \<Rightarrow> string \<Rightarrow> bool" where
  "starts_nowhere [] t = True"
| "starts_nowhere (c # f) t = (lit dashes (c # f @ t) = None \<and> starts_nowhere f t)"

function scan :: "string \<Rightarrow> block_match list" where
  "scan blob = (case exec blob of None \<Rightarrow> [] | Some (m, rest) \<Rightarrow> m # scan rest)"
  by pat_completeness auto
termination
  by (relation "measure length") (auto dest: exec_shorter)

declare scan.simps [simp del]

definition extracted :: "pathlib \<Rightarrow> string \<Rightarrow> (CodeBlock \<times> string) list" where
  "extracted lib blob =
     List.map_filter
       (\<lambda>m. case parseInt (m_startLineStr m) of
               None \<Rightarrow> None
             | Some n \<Rightarrow> Some (code_block_of lib m n, m_operation m))
       (scan blob)"

definition blob_of :: "(string \<times> block_text) list \<Rightarrow> string" where
  "blob_of items = concat (map (\<lambda>(filler, t). filler @ render t) items)"

definition item_ok :: "string \<times> block_text \<Rightarrow> bool" where
  "item_ok = (\<lambda>(filler, t). delimiter_free filler \<and> well_formed t)"

definition handle_block :: "CodeBlock \<times> string \<Rightarrow> panel \<Rightarrow> panel" where
  "handle_block = (\<lambda>(b, opn) st.
     st\<lparr>codeBlocks := (codeBlocks st)(id' b \<mapsto> b),
        disk := outcome (handleFileModification
                  \<lparr>fm_filePath = filePath b, blocks = [b], operation = opn\<rparr> (disk st))\<rparr>)"

definition prompt_layout :: "nat \<Rightarrow> string" where
  "prompt_layout i =
     (if i = 0 \<or> i = 9 then ''\<newline>'' else if odd i then ''\<newline>  '' else '' '')"

definition example_text :: "string \<Rightarrow> string \<Rightarrow> string \<Rightarrow> string \<Rightarrow> block_text" where
  "example_text f n opn body =
     \<lparr>bt_file = f, bt_blockId = ''b1'', bt_startLine = n, bt_operation = opn, bt_body = body,
      bt_blank = prompt_layout\<rparr>"

text \<open>
  A block that is well formed but for its start line, which is some token without blank
  or comma that is not a string of digits (a negative number, a word, a quoted string),
  and whose text holds no fifty dashes between its delimiters. The text behind such
  a block lets the scan resume when it does not begin with a dash or, after blanks, with
  an opening brace.
\<close>

definition plain_token :: "string \<Rightarrow> bool" where
  "plain_token v = list_all (\<lambda>c. \<not> is_space c \<and> c \<noteq> CHR '','') v"

definition ill_numbered :: "block_text \<Rightarrow> bool" where
  "ill_numbered t =
     (blanks_ok t \<and> name_ok (bt_file t) \<and> name_ok (bt_blockId t) \<and> name_ok (bt_operation t) \<and>
      plain_token (bt_startLine t) \<and> \<not> numeric (bt_startLine t) \<and>
      delimiter_free (header t @ bt_body t))"

definition resumes :: "string \<Rightarrow> bool" where
  "resumes post =
     (post = [] \<or>
      (hd post \<noteq> CHR ''-'' \<and> (case spaces post of [] \<Rightarrow> True | c # s \<Rightarrow> c \<noteq> CHR ''{'')))"

text \<open>
  For the driver: the calls of a run of \<open>n\<close> rounds in their order, a generate call
  being \<open>True\<close>; the entries of the transcript; a service that answers every call; the
  state a run ends in, aborted or not; and prompts and a service for the examples.
\<close>

fun alternating :: "nat \<Rightarrow> bool list" where
  "alternating 0 = []"
| "alternating (Suc 0) = [True]"
| "alternating (Suc (Suc n)) = True # False # alternating (Suc n)"

definition user_msg :: "string \<Rightarrow> message" where
  "user_msg t = \<lparr>role = User, text_of = t\<rparr>"

definition assistant_msg :: "string \<Rightarrow> message" where
  "assistant_msg t = \<lparr>role = Assistant, text_of = t\<rparr>"

definition always_answers :: "service \<Rightarrow> bool" where
  "always_answers svc = (\<forall>ms. \<exists>c. svc ms = Inr c)"


definition example_prompts :: prompts where
  "example_prompts =
     \<lparr>generator_template = (\<lambda>r. ''Request: '' @ r),
      generate_template = (\<lambda>p. ''Generate. '' @ p),
      enhance_instruction = ''Enhance'',
      review_template = (\<lambda>r. ''Review: '' @ r),
      request_template = (\<lambda>r v. ''Previous: '' @ r @ '' Feedback: '' @ v)\<rparr>"

definition example_service :: service where
  "example_service ms = Inr (Some ''ok'')"

section \<open>Lemmas on the file system and on one block\<close>

lemma ancestors_length: "q \<in> set (ancestors d) \<Longrightarrow> length q \<le> length d"
  by (induction d arbitrary: q) auto

lemma self_ancestor: "d \<noteq> [] \<Longrightarrow> d \<in> set (ancestors d)"
  by (induction d) auto

lemma not_ancestor_of_parent: "p \<noteq> [] \<Longrightarrow> p \<notin> set (ancestors (dirname p))"
  using ancestors_length [of p "butlast p"] by (cases p) (auto simp: dirname_def)

lemma files_with_parent [simp]: "files (with_parent fs p) = files fs"
  by (simp add: with_parent_def)

lemma writable_with_parent:
  assumes "writable fs p"
  shows "\<not> is_dir (with_parent fs p) p" and "is_dir (with_parent fs p) (dirname p)"
proof -
  from assms have np: "p \<noteq> []" "p \<notin> dirs fs"
    and nf: "\<not> list_ex (\<lambda>q. files fs q \<noteq> None) (ancestors (dirname p))"
    by (auto simp: writable_def is_dir_def)
  show "\<not> is_dir (with_parent fs p) p"
    using np not_ancestor_of_parent [of p] by (auto simp: with_parent_def is_dir_def)
  show "is_dir (with_parent fs p) (dirname p)"
  proof (cases "dirname p = []")
    case True
    then show ?thesis by (simp add: is_dir_def)
  next
    case False
    from self_ancestor [OF False] nf have "files fs (dirname p) = None"
      by (auto simp: list_ex_iff)
    with False self_ancestor [OF False] show ?thesis
      by (auto simp: with_parent_def is_dir_def existsSync_def)
  qed
qed

lemma write_with_parent:
  "writable fs p \<Longrightarrow>
     writeFileSync (with_parent fs p) p c = Inr ((with_parent fs p)\<lparr>files := (files fs)(p \<mapsto> c)\<rparr>)"
  using writable_with_parent [of fs p] by (simp add: writeFileSync_def)

lemma append_with_parent:
  "writable fs p \<Longrightarrow>
     appendFileSync (with_parent fs p) p c =
       Inr ((with_parent fs p)\<lparr>files := (files fs)(p \<mapsto> existing_content fs p @ c)\<rparr>)"
  using writable_with_parent [of fs p]
  by (auto simp: appendFileSync_def existing_content_def split: option.splits)

lemma mkdir_writable:
  "writable fs p \<Longrightarrow>
     (if \<not> existsSync fs (dirname p) then mkdirSync fs (dirname p) else Inr fs) = Inr (with_parent fs p)"
  by (simp add: writable_def mkdirSync_def with_parent_def)

lemma read_existing_writable:
  "writable fs p \<Longrightarrow>
     read_existing (with_parent fs p) p = Inr (existing_content fs p, existing_lines fs p)"
  using writable_with_parent(1) [of fs p]
  by (auto simp: read_existing_def existsSync_def readFileSync_def existing_content_def
      existing_lines_def split: option.splits)

lemma handle_single:
  "writable fs p \<Longrightarrow>
     handleFileModification \<lparr>fm_filePath = p, blocks = [b], operation = opn\<rparr> fs =
       (case apply_block opn p (existing_content fs p) b (existing_lines fs p, with_parent fs p) of
          Inl e \<Rightarrow> Inl e
        | Inr (ls, fs2) \<Rightarrow> Inr fs2)"
  by (simp add: handleFileModification_def Let_def mkdir_writable read_existing_writable
      split: sum.splits prod.splits)


lemma splice_at:
  "0 \<le> k \<Longrightarrow> 0 \<le> d \<Longrightarrow> k + d \<le> int (length xs) \<Longrightarrow>
     array_splice k d items xs = take (nat k) xs @ items @ drop (nat (k + d)) xs"
  by (simp add: array_splice_def Let_def min_def max_def)

lemma splice_insert:
  "0 \<le> k \<Longrightarrow> array_splice k 0 items xs = take (nat k) xs @ items @ drop (nat k) xs"
  by (auto simp: array_splice_def Let_def min_def max_def)

lemma split_nl_single: "newline \<notin> set s \<Longrightarrow> split_nl s = [s]"
  by (induction s) auto

lemma split_nl_nonempty: "split_nl s \<noteq> []"
  by (induction s) (auto split: list.splits)

lemma split_nl_length: "1 \<le> int (length (split_nl s))"
  using split_nl_nonempty [of s] by (cases "split_nl s") auto

lemma digits_fold_nonneg:
  "list_all is_digit ds \<Longrightarrow> 0 \<le> a \<Longrightarrow>
     0 \<le> foldl (\<lambda>n c. 10 * n + (int (of_char c) - 48)) a ds"
  by (induction ds arbitrary: a) (auto simp: is_digit_def)

lemma parseInt_nonneg: "parseInt s = Some n \<Longrightarrow> 0 \<le> n"
proof -
  assume a: "parseInt s = Some n"
  have d: "list_all is_digit (takeWhile is_digit s)"
    unfolding list_all_iff using set_takeWhileD by fast
  from a have "n = digits_value (takeWhile is_digit s)"
    by (auto simp: parseInt_def split: list.splits)
  with digits_fold_nonneg [OF d, of 0] show ?thesis by (simp add: digits_value_def)
qed

lemma process_match_disk:
  assumes "parseInt (m_startLineStr m) = Some n"
  shows "disk (process_match lib m st) =
     (case handleFileModification
             \<lparr>fm_filePath = join_output lib (m_filePath m), blocks = [code_block_of lib m n],
              operation = m_operation m\<rparr> (disk st) of
        Inl (e, fs') \<Rightarrow> fs'
      | Inr fs' \<Rightarrow> fs')"
  using assms
  by (simp add: process_match_def Let_def code_block_of_def split: sum.splits prod.splits)

lemma process_match_writable:
  assumes "parseInt (m_startLineStr m) = Some n"
    and "writable (disk st) (join_output lib (m_filePath m))"
  shows "disk (process_match lib m st) =
     (case apply_block (m_operation m) (join_output lib (m_filePath m))
             (existing_content (disk st) (join_output lib (m_filePath m)))
             (code_block_of lib m n)
             (existing_lines (disk st) (join_output lib (m_filePath m)),
              with_parent (disk st) (join_output lib (m_filePath m))) of
        Inl (e, fs') \<Rightarrow> fs'
      | Inr (ls, fs') \<Rightarrow> fs')"
  using assms
  by (simp add: process_match_disk handle_single split: sum.splits prod.splits)

lemma parseInt_1: "parseInt ''1'' = Some 1" "parseInt ''2'' = Some 2" "parseInt ''3'' = Some 3" "parseInt ''0'' = Some 0"
  by (simp_all add: parseInt_def digits_value_def is_digit_def)

lemma trim_X: "trim ''X'' = ''X''"
  by (simp add: trim_def is_space_def)

lemma outcome_simps [simp]: "outcome (Inl (e, fs)) = fs" "outcome (Inr fs) = fs"
  by (simp_all add: outcome_def)

lemma process_match_outcome:
  assumes "parseInt (m_startLineStr m) = Some n"
  shows "disk (process_match lib m st) =
     outcome (handleFileModification
             \<lparr>fm_filePath = join_output lib (m_filePath m), blocks = [code_block_of lib m n],
              operation = m_operation m\<rparr> (disk st))"
  using assms by (simp add: process_match_disk outcome_def)

lemma mkdir_step:
  assumes "(if \<not> existsSync fs d then mkdirSync fs d else Inr fs) = Inr fs1"
  shows "files fs1 = files fs" and "dirs fs \<subseteq> dirs fs1" and "dirs fs1 \<subseteq> dirs fs \<union> set (ancestors d)"
  using assms by (auto simp: mkdirSync_def split: if_splits)

lemma writeFileSync_Inr:
  "writeFileSync fs p c = Inr fs' \<Longrightarrow> fs' = fs\<lparr>files := (files fs)(p \<mapsto> c)\<rparr>"
  by (auto simp: writeFileSync_def split: if_splits)

lemma appendFileSync_Inr:
  "appendFileSync fs p c = Inr fs' \<Longrightarrow>
     fs' = fs\<lparr>files := (files fs)(p \<mapsto> existing_content fs p @ c)\<rparr>"
  by (auto simp: appendFileSync_def existing_content_def split: if_splits option.splits)

lemma read_existing_Inr:
  "read_existing fs p = Inr (c, ls) \<Longrightarrow> c = existing_content fs p \<and> ls = existing_lines fs p"
  by (auto simp: read_existing_def readFileSync_def existsSync_def existing_content_def
      existing_lines_def split: if_splits option.splits)

lemma apply_block_Inl: "apply_block opn p c b (ls, fs) = Inl (e, fs') \<Longrightarrow> fs' = fs"
  by (auto simp: apply_block_def Let_def split: if_splits sum.splits)

lemma apply_block_frame:
  assumes "apply_block opn p c b (ls, fs) = Inr (ls', fs')"
  shows "dirs fs' = dirs fs" and "q \<noteq> p \<Longrightarrow> files fs' q = files fs q"
    and "dom (files fs) \<subseteq> dom (files fs')"
  using assms
  by (auto simp: apply_block_def Let_def split: if_splits sum.splits
      dest!: writeFileSync_Inr appendFileSync_Inr)

lemma apply_block_skip:
  assumes "opn \<noteq> ''append''" and "opn \<noteq> ''insert''"
    and "\<not> (0 < startLine b \<and> endLine b \<le> int (length ls))"
  shows "apply_block opn p c b (ls, fs) = Inr (ls, fs)"
  using assms by (auto simp: apply_block_def)

lemma handle_cases:
  obtains (mkdir_failed) e where
      "handleFileModification \<lparr>fm_filePath = p, blocks = [b], operation = opn\<rparr> fs = Inl (e, fs)"
  | (read_failed) e fs1 where
      "(if \<not> existsSync fs (dirname p) then mkdirSync fs (dirname p) else Inr fs) = Inr fs1"
      "handleFileModification \<lparr>fm_filePath = p, blocks = [b], operation = opn\<rparr> fs = Inl (e, fs1)"
  | (applied) fs1 where
      "(if \<not> existsSync fs (dirname p) then mkdirSync fs (dirname p) else Inr fs) = Inr fs1"
      "handleFileModification \<lparr>fm_filePath = p, blocks = [b], operation = opn\<rparr> fs =
         (case apply_block opn p (existing_content fs1 p) b (existing_lines fs1 p, fs1) of
            Inl e \<Rightarrow> Inl e | Inr (ls, fs2) \<Rightarrow> Inr fs2)"
proof (cases "if \<not> existsSync fs (dirname p) then mkdirSync fs (dirname p) else Inr fs")
  case (Inl e)
  then have "handleFileModification \<lparr>fm_filePath = p, blocks = [b], operation = opn\<rparr> fs = Inl (e, fs)"
    by (simp add: handleFileModification_def Let_def)
  then show ?thesis by (rule mkdir_failed)
next
  case (Inr fs1)
  show ?thesis
  proof (cases "read_existing fs1 p")
    case (Inl e)
    with Inr have "handleFileModification \<lparr>fm_filePath = p, blocks = [b], operation = opn\<rparr> fs = Inl (e, fs1)"
      by (simp add: handleFileModification_def Let_def)
    with Inr show ?thesis by (rule read_failed)
  next
    case (Inr r)
    obtain c ls where r: "r = (c, ls)" by (cases r)
    from Inr r read_existing_Inr [of fs1 p c ls]
    have "read_existing fs1 p = Inr (existing_content fs1 p, existing_lines fs1 p)" by simp
    with \<open>(if \<not> existsSync fs (dirname p) then mkdirSync fs (dirname p) else Inr fs) = Inr fs1\<close>
    have "handleFileModification \<lparr>fm_filePath = p, blocks = [b], operation = opn\<rparr> fs =
         (case apply_block opn p (existing_content fs1 p) b (existing_lines fs1 p, fs1) of
            Inl e \<Rightarrow> Inl e | Inr (ls, fs2) \<Rightarrow> Inr fs2)"
      by (simp add: handleFileModification_def Let_def split: sum.splits prod.splits)
    with \<open>(if \<not> existsSync fs (dirname p) then mkdirSync fs (dirname p) else Inr fs) = Inr fs1\<close>
    show ?thesis by (rule applied)
  qed
qed


lemma existing_lines_cong: "files fs1 = files fs \<Longrightarrow> existing_lines fs1 p = existing_lines fs p"
  by (simp add: existing_lines_def)

lemma existing_lines_absent: "files fs p = None \<Longrightarrow> existing_lines fs p = []"
  by (simp add: existing_lines_def)

lemma handle_frame:
  fixes p b opn fs
  defines "fs' \<equiv> outcome (handleFileModification \<lparr>fm_filePath = p, blocks = [b], operation = opn\<rparr> fs)"
  shows "q \<noteq> p \<Longrightarrow> files fs' q = files fs q"
    and "dirs fs \<subseteq> dirs fs'"
    and "dirs fs' \<subseteq> dirs fs \<union> set (ancestors (dirname p))"
    and "dom (files fs) \<subseteq> dom (files fs')"
proof -
  have "(q \<noteq> p \<longrightarrow> files fs' q = files fs q) \<and> dirs fs \<subseteq> dirs fs' \<and>
        dirs fs' \<subseteq> dirs fs \<union> set (ancestors (dirname p)) \<and> dom (files fs) \<subseteq> dom (files fs')"
  proof (cases rule: handle_cases [of p b opn fs])
    case (mkdir_failed e)
    then show ?thesis by (simp add: fs'_def)
  next
    case (read_failed e fs1)
    with mkdir_step [OF read_failed(1)] show ?thesis by (simp add: fs'_def)
  next
    case (applied fs1)
    note m = mkdir_step [OF applied(1)]
    show ?thesis
    proof (cases "apply_block opn p (existing_content fs1 p) b (existing_lines fs1 p, fs1)")
      case (Inl r)
      obtain e fs2 where "r = (e, fs2)" by (cases r)
      with Inl apply_block_Inl [of opn p _ b _ fs1 e fs2] have "r = (e, fs1)" by simp
      with Inl applied(2) m show ?thesis by (simp add: fs'_def)
    next
      case (Inr r)
      obtain ls fs2 where r: "r = (ls, fs2)" by (cases r)
      from Inr r applied(2) have "fs' = fs2" by (simp add: fs'_def)
      with apply_block_frame [OF Inr [unfolded r]] m show ?thesis by auto
    qed
  qed
  then show "q \<noteq> p \<Longrightarrow> files fs' q = files fs q"
    and "dirs fs \<subseteq> dirs fs'"
    and "dirs fs' \<subseteq> dirs fs \<union> set (ancestors (dirname p))"
    and "dom (files fs) \<subseteq> dom (files fs')" by auto
qed

lemma handle_skip:
  assumes "opn \<noteq> ''append''" and "opn \<noteq> ''insert''"
    and "\<not> (0 < startLine b \<and> endLine b \<le> int (length (existing_lines fs p)))"
  shows "files (outcome (handleFileModification
            \<lparr>fm_filePath = p, blocks = [b], operation = opn\<rparr> fs)) = files fs"
proof (cases rule: handle_cases [of p b opn fs])
  case (mkdir_failed e)
  then show ?thesis by simp
next
  case (read_failed e fs1)
  with mkdir_step [OF read_failed(1)] show ?thesis by simp
next
  case (applied fs1)
  note m = mkdir_step [OF applied(1)]
  from assms(3) existing_lines_cong [OF m(1), of p]
  have "\<not> (0 < startLine b \<and> endLine b \<le> int (length (existing_lines fs1 p)))" by simp
  from apply_block_skip [OF assms(1,2) this] applied(2) m(1) show ?thesis by simp
qed


lemma process_match_dom:
  assumes "m_operation m \<noteq> ''append''" and "m_operation m \<noteq> ''insert''"
  shows "dom (files (disk (process_match lib m st))) = dom (files (disk st))"
proof (cases "parseInt (m_startLineStr m)")
  case None
  then show ?thesis by (simp add: process_match_def)
next
  case (Some n)
  let ?p = "join_output lib (m_filePath m)"
  let ?b = "code_block_of lib m n"
  let ?fs' = "outcome (handleFileModification
      \<lparr>fm_filePath = ?p, blocks = [?b], operation = m_operation m\<rparr> (disk st))"
  have d: "disk (process_match lib m st) = ?fs'"
    using Some by (rule process_match_outcome)
  have sub: "dom (files (disk st)) \<subseteq> dom (files ?fs')"
    by (rule handle_frame(4))
  have "q \<in> dom (files (disk st))" if q: "q \<in> dom (files ?fs')" for q
  proof (cases "q = ?p \<and> files (disk st) ?p = None")
    case True
    from parseInt_nonneg [OF Some] split_nl_length [of "trim (m_code m)"] True
    have "\<not> (0 < startLine ?b \<and> endLine ?b \<le> int (length (existing_lines (disk st) ?p)))"
      by (simp add: code_block_of_def existing_lines_absent)
    from handle_skip [OF assms this] q True show ?thesis by auto
  next
    case False
    then consider "q \<noteq> ?p" | "q = ?p" "files (disk st) ?p \<noteq> None" by auto
    then show ?thesis
    proof cases
      case 1
      from handle_frame(1) [OF this, of ?b "m_operation m" "disk st"]
      have "files ?fs' q = files (disk st) q" .
      with q show ?thesis by (simp add: dom_def)
    next
      case 2
      then show ?thesis by (simp add: dom_def)
    qed
  qed
  then have "dom (files ?fs') \<subseteq> dom (files (disk st))" by (rule subsetI)
  with sub have "dom (files ?fs') = dom (files (disk st))" by (rule equalityI [rotated])
  with d show ?thesis by simp
qed

lemma delete_splice:
  assumes "m_operation m = ''delete''"
    and "parseInt (m_startLineStr m) = Some n" and "0 < n"
    and "n + int (length (split_nl (trim (m_code m))))
           \<le> int (length (existing_lines (disk st) (join_output lib (m_filePath m))))"
    and "writable (disk st) (join_output lib (m_filePath m))"
  shows "files (disk (process_match lib m st)) (join_output lib (m_filePath m)) =
           Some (join_nl
             (take (nat (n - 1)) (existing_lines (disk st) (join_output lib (m_filePath m)))
              @ drop (nat (n + int (length (split_nl (trim (m_code m))))))
                  (existing_lines (disk st) (join_output lib (m_filePath m)))))"
  using assms
  by (simp add: process_match_writable apply_block_def code_block_of_def Let_def
      write_with_parent splice_at)

lemma splice_guarded:
  assumes "0 < s" and "e \<le> int (length xs)"
  shows "array_splice (s - 1) (e - s + 1) items xs =
           take (nat (s - 1)) xs @ items @ drop (nat (max e (s - 1))) xs"
proof (cases "s - 1 \<le> e")
  case True
  with assms show ?thesis
    by (simp add: array_splice_def Let_def min_def max_def)
next
  case False
  with assms show ?thesis
    by (auto simp: array_splice_def Let_def min_def max_def)
qed

lemma split_nl_line: "newline \<notin> set l \<Longrightarrow> split_nl (l @ newline # s) = l # split_nl s"
  by (induction l) auto

lemma split_join:
  "xs \<noteq> [] \<Longrightarrow> \<forall>l\<in>set xs. newline \<notin> set l \<Longrightarrow> split_nl (join_nl xs) = xs"
  by (induction xs rule: join_nl.induct) (simp_all add: split_nl_single split_nl_line)

lemma split_nl_free: "l \<in> set (split_nl s) \<Longrightarrow> newline \<notin> set l"
  by (induction s arbitrary: l) (auto split: if_splits list.splits)

lemma existing_lines_free: "l \<in> set (existing_lines fs p) \<Longrightarrow> newline \<notin> set l"
  by (auto simp: existing_lines_def split: option.splits dest: split_nl_free)

lemma modify_single:
  assumes "0 < startLine b" and "endLine b \<le> int (length (existing_lines fs p))"
    and "writable fs p"
  shows "handleFileModification \<lparr>fm_filePath = p, blocks = [b], operation = ''modify''\<rparr> fs =
           Inr ((with_parent fs p)\<lparr>files := (files fs)(p \<mapsto> join_nl
             (take (nat (startLine b - 1)) (existing_lines fs p) @ [content b]
              @ drop (nat (max (endLine b) (startLine b - 1))) (existing_lines fs p)))\<rparr>)"
  using assms
  by (simp add: handle_single apply_block_def Let_def write_with_parent splice_guarded)

lemma delete_single:
  assumes "0 < startLine b" and "endLine b \<le> int (length (existing_lines fs p))"
    and "writable fs p"
  shows "handleFileModification \<lparr>fm_filePath = p, blocks = [b], operation = ''delete''\<rparr> fs =
           Inr ((with_parent fs p)\<lparr>files := (files fs)(p \<mapsto> join_nl
             (take (nat (startLine b - 1)) (existing_lines fs p)
              @ drop (nat (max (endLine b) (startLine b - 1))) (existing_lines fs p)))\<rparr>)"
  using assms
  by (simp add: handle_single apply_block_def Let_def write_with_parent splice_guarded)

text \<open>The definitions that the examples unfold.\<close>

lemmas example_defs = example_block_def example_panel_def lines_at_def node_path_def
  fresh_panel_def single_file_def writable_def is_dir_def dirname_def existing_lines_def
  existing_content_def newline_def parseInt_def digits_value_def is_digit_def trim_def
  is_space_def

section \<open>Insert\<close>

text \<open>
  Claim C6. An insert block with \<open>startLine > 0\<close> puts its content, as one new element,
  into the array of the lines of the target at index \<open>startLine - 1\<close>, the lines that were
  there staying in their order before and after it, and writes the array joined by
  newlines. A start behind the end of the array is clamped to the end by \<^verbatim>\<open>splice\<close>,
  as \<^const>\<open>take\<close> and \<^const>\<open>drop\<close> do. The witness is the example of the specification:
  inserting at line 1 of the lines \<open>a\<close>, \<open>b\<close>.
\<close>

theorem insert_before_startLine:
  assumes "m_operation m = ''insert''"
    and "parseInt (m_startLineStr m) = Some n" and "0 < n"
    and "writable (disk st) (join_output lib (m_filePath m))"
  shows "files (disk (process_match lib m st)) (join_output lib (m_filePath m)) =
           Some (join_nl (take (nat (n - 1)) (existing_lines (disk st) (join_output lib (m_filePath m)))
                          @ [trim (m_code m)]
                          @ drop (nat (n - 1)) (existing_lines (disk st) (join_output lib (m_filePath m)))))"
  using assms
  by (simp add: process_match_writable apply_block_def code_block_of_def Let_def
      write_with_parent splice_insert)


theorem insert_before_startLine_witness:
  "lines_at (process_match (node_path [''out''])
       \<lparr>m_filePath = ''f.txt'', m_blockId = ''b1'', m_startLineStr = ''1'',
        m_operation = ''insert'', m_code = ''X''\<rparr>
       (fresh_panel (single_file [''out'', ''f.txt''] [CHR ''a'', newline, CHR ''b''])))
     [''out'', ''f.txt''] = Some [''X'', ''a'', ''b'']"
  using insert_before_startLine [where
      m = "\<lparr>m_filePath = ''f.txt'', m_blockId = ''b1'', m_startLineStr = ''1'',
        m_operation = ''insert'', m_code = ''X''\<rparr>"
      and lib = "node_path [''out'']" and n = 1
      and st = "fresh_panel (single_file [''out'', ''f.txt''] [CHR ''a'', newline, CHR ''b''])"]
  by (simp add: lines_at_def parseInt_1 trim_X node_path_def fresh_panel_def single_file_def
      writable_def is_dir_def dirname_def existing_lines_def newline_def)

section \<open>Append\<close>

text \<open>
  Claim C5. An append block writes its trimmed content as the whole text of the target
  when nothing is there or the file is empty, and otherwise appends a newline and the
  trimmed content to the text that is there. The hypothesis \<open>writable\<close> says that the
  calls of \<^verbatim>\<open>fs\<close> on the target cannot fail. The witness appends to a file of two lines,
  and to a file that does not exist.
\<close>

theorem append_content:
  assumes "m_operation m = ''append''"
    and "parseInt (m_startLineStr m) = Some n"
    and "writable (disk st) (join_output lib (m_filePath m))"
  shows "(files (disk st) (join_output lib (m_filePath m)) = None \<or>
          files (disk st) (join_output lib (m_filePath m)) = Some [] \<longrightarrow>
            files (disk (process_match lib m st)) (join_output lib (m_filePath m)) =
              Some (trim (m_code m))) \<and>
         (\<forall>oldContent. files (disk st) (join_output lib (m_filePath m)) = Some oldContent \<and>
              oldContent \<noteq> [] \<longrightarrow>
            files (disk (process_match lib m st)) (join_output lib (m_filePath m)) =
              Some (oldContent @ [newline] @ trim (m_code m)))"
  using assms
  by (auto simp: process_match_writable apply_block_def code_block_of_def
      write_with_parent append_with_parent existing_content_def)

theorem append_content_witness:
  "lines_at (process_match (node_path [''out'']) (example_block ''1'' ''append'' ''X'')
       (example_panel [''a'', ''b''])) [''out'', ''f.txt''] = Some [''a'', ''b'', ''X''] \<and>
   files (disk (process_match (node_path [''out''])
       (example_block ''1'' ''append'' [CHR '' '', CHR ''X'', newline])
       (fresh_panel empty_disk))) [''out'', ''f.txt''] = Some ''X''"
  using append_content [where m = "example_block ''1'' ''append'' ''X''"
      and lib = "node_path [''out'']" and n = 1 and st = "example_panel [''a'', ''b'']"]
    append_content [where m = "example_block ''1'' ''append'' [CHR '' '', CHR ''X'', newline]"
      and lib = "node_path [''out'']" and n = 1 and st = "fresh_panel empty_disk"]
  by (simp add: example_defs empty_disk_def)

section \<open>Modify and delete out of range\<close>

text \<open>
  Claim C4. A modify or delete block whose \<open>endLine\<close>, as \<^verbatim>\<open>_saveGeneratedCode\<close> computes
  it, exceeds the number of lines of the target is not applied: every file keeps its
  text, and on a writable path \<^verbatim>\<open>_handleFileModification\<close> returns without an error, its
  only effect being the directories above the target, created if they were missing.
\<close>

theorem out_of_range_not_applied:
  assumes "m_operation m = ''modify'' \<or> m_operation m = ''delete''"
    and "parseInt (m_startLineStr m) = Some n"
    and "int (length (existing_lines (disk st) (join_output lib (m_filePath m))))
           < n + int (length (split_nl (trim (m_code m))))"
  shows "files (disk (process_match lib m st)) = files (disk st) \<and>
         (writable (disk st) (join_output lib (m_filePath m)) \<longrightarrow>
            handleFileModification
              \<lparr>fm_filePath = join_output lib (m_filePath m), blocks = [code_block_of lib m n],
               operation = m_operation m\<rparr> (disk st) =
            Inr (with_parent (disk st) (join_output lib (m_filePath m))))"
proof -
  let ?p = "join_output lib (m_filePath m)"
  let ?b = "code_block_of lib m n"
  from assms(1) have o: "m_operation m \<noteq> ''append''" "m_operation m \<noteq> ''insert''" by auto
  from assms(3) have g: "\<not> (0 < startLine ?b \<and>
      endLine ?b \<le> int (length (existing_lines (disk st) ?p)))"
    by (simp add: code_block_of_def)
  from handle_skip [OF o g] assms(2)
  have "files (disk (process_match lib m st)) = files (disk st)"
    by (simp add: process_match_outcome)
  moreover have "handleFileModification
      \<lparr>fm_filePath = ?p, blocks = [?b], operation = m_operation m\<rparr> (disk st) =
      Inr (with_parent (disk st) ?p)" if "writable (disk st) ?p"
    using that apply_block_skip [OF o g] by (simp add: handle_single)
  ultimately show ?thesis by simp
qed

theorem out_of_range_not_applied_witness:
  "lines_at (process_match (node_path [''out'']) (example_block ''2'' ''modify'' ''X'')
       (example_panel [''a'', ''b''])) [''out'', ''f.txt''] = Some [''a'', ''b'']"
  using out_of_range_not_applied [where m = "example_block ''2'' ''modify'' ''X''"
      and lib = "node_path [''out'']" and n = 2 and st = "example_panel [''a'', ''b'']"]
  by (simp add: example_defs)

section \<open>Modify\<close>

text \<open>
  Claim C2. A modify block with \<open>startLine > 0\<close> and \<open>endLine\<close> at most the number of
  lines of the target replaces the lines \<open>startLine\<close> to \<open>endLine\<close>, both included, of the
  array of lines by one element, its content, and writes the array joined by newlines.
  This is proved of \<^verbatim>\<open>_handleFileModification\<close> for every block. When \<open>endLine\<close> is below
  \<open>startLine\<close> the range is empty and \<^verbatim>\<open>splice\<close> removes nothing, which is what the
  maximum says; otherwise the lines from \<open>endLine\<close> on are kept. When the content holds no
  newline, the lines of the file written are that array. The last part is the rule for
  the blocks that \<^verbatim>\<open>_saveGeneratedCode\<close> builds, whose \<open>endLine\<close> is computed. The witness
  is the example of the specification: the lines 3 to 5 of ten lines replaced by one
  line.
\<close>

theorem modify_block_replaces_range:
  assumes "0 < startLine b" and "endLine b \<le> int (length (existing_lines fs p))"
    and "writable fs p"
  shows "handleFileModification \<lparr>fm_filePath = p, blocks = [b], operation = ''modify''\<rparr> fs =
           Inr ((with_parent fs p)\<lparr>files := (files fs)(p \<mapsto> join_nl
             (take (nat (startLine b - 1)) (existing_lines fs p) @ [content b]
              @ drop (nat (max (endLine b) (startLine b - 1))) (existing_lines fs p)))\<rparr>) \<and>
         (newline \<notin> set (content b) \<longrightarrow>
            map_option split_nl (files (outcome (handleFileModification
                \<lparr>fm_filePath = p, blocks = [b], operation = ''modify''\<rparr> fs)) p) =
              Some (take (nat (startLine b - 1)) (existing_lines fs p) @ [content b]
                    @ drop (nat (max (endLine b) (startLine b - 1))) (existing_lines fs p))) \<and>
         (\<forall>lib m n st. m_operation m = ''modify'' \<and> parseInt (m_startLineStr m) = Some n \<and> 0 < n \<and>
              endLine (code_block_of lib m n)
                \<le> int (length (existing_lines (disk st) (join_output lib (m_filePath m)))) \<and>
              writable (disk st) (join_output lib (m_filePath m)) \<longrightarrow>
            files (disk (process_match lib m st)) (join_output lib (m_filePath m)) =
              Some (join_nl
                (take (nat (n - 1)) (existing_lines (disk st) (join_output lib (m_filePath m)))
                 @ [trim (m_code m)]
                 @ drop (nat (endLine (code_block_of lib m n)))
                     (existing_lines (disk st) (join_output lib (m_filePath m))))))"
proof -
  let ?ls = "existing_lines fs p"
  let ?new = "take (nat (startLine b - 1)) ?ls @ [content b]
              @ drop (nat (max (endLine b) (startLine b - 1))) ?ls"
  have r: "handleFileModification \<lparr>fm_filePath = p, blocks = [b], operation = ''modify''\<rparr> fs =
      Inr ((with_parent fs p)\<lparr>files := (files fs)(p \<mapsto> join_nl ?new)\<rparr>)"
    by (rule modify_single [OF assms])
  have "split_nl (join_nl ?new) = ?new" if "newline \<notin> set (content b)"
  proof (rule split_join)
    show "?new \<noteq> []" by simp
    show "\<forall>l\<in>set ?new. newline \<notin> set l"
      using that by (auto dest: in_set_takeD in_set_dropD existing_lines_free)
  qed
  with r have l: "newline \<notin> set (content b) \<longrightarrow>
      map_option split_nl (files (outcome (handleFileModification
          \<lparr>fm_filePath = p, blocks = [b], operation = ''modify''\<rparr> fs)) p) = Some ?new"
    by simp
  have "files (disk (process_match lib m st)) (join_output lib (m_filePath m)) =
          Some (join_nl
            (take (nat (n - 1)) (existing_lines (disk st) (join_output lib (m_filePath m)))
             @ [trim (m_code m)]
             @ drop (nat (endLine (code_block_of lib m n)))
                 (existing_lines (disk st) (join_output lib (m_filePath m)))))"
    if "m_operation m = ''modify''" "parseInt (m_startLineStr m) = Some n" "0 < n"
      "endLine (code_block_of lib m n)
         \<le> int (length (existing_lines (disk st) (join_output lib (m_filePath m))))"
      "writable (disk st) (join_output lib (m_filePath m))" for lib m n st
    using that split_nl_length [of "trim (m_code m)"]
    by (simp add: process_match_writable apply_block_def code_block_of_def Let_def
        write_with_parent splice_at)
  with r l show ?thesis by blast
qed

theorem modify_block_replaces_range_witness:
  "map_option split_nl (files (outcome (handleFileModification
       \<lparr>fm_filePath = [''out'', ''f.txt''],
        blocks = [\<lparr>id' = ''b1'', filePath = [''out'', ''f.txt''], startLine = 3, endLine = 5,
                   content = ''X'', type' = ''txt''\<rparr>],
        operation = ''modify''\<rparr>
       (single_file [''out'', ''f.txt'']
          (join_nl [''a'', ''b'', ''c'', ''d'', ''e'', ''f'', ''g'', ''h'', ''i'', ''j'']))))
     [''out'', ''f.txt'']) = Some [''a'', ''b'', ''X'', ''f'', ''g'', ''h'', ''i'', ''j'']"
  using modify_block_replaces_range [where
      b = "\<lparr>id' = ''b1'', filePath = [''out'', ''f.txt''], startLine = 3, endLine = 5,
                   content = ''X'', type' = ''txt''\<rparr>"
      and p = "[''out'', ''f.txt'']"
      and fs = "single_file [''out'', ''f.txt'']
          (join_nl [''a'', ''b'', ''c'', ''d'', ''e'', ''f'', ''g'', ''h'', ''i'', ''j''])",
      THEN conjunct2, THEN conjunct1]
  by (simp add: single_file_def writable_def is_dir_def dirname_def existing_lines_def newline_def)

section \<open>Delete\<close>

text \<open>
  Claim C7. A delete block with \<open>startLine > 0\<close> and \<open>endLine\<close> at most the number of
  lines of the target removes the lines \<open>startLine\<close> to \<open>endLine\<close>, both included, from the
  array of lines, and writes the array joined by newlines; the lines of the file written
  are that array unless it is empty, the empty text having one empty line. This is proved
  of \<^verbatim>\<open>_handleFileModification\<close> for every block, the maximum standing for the empty
  range as in the rule of modify. A block with the range 2 to 2 turns the lines \<open>a\<close>,
  \<open>b\<close>, \<open>c\<close> into \<open>a\<close>, \<open>c\<close>. The last part is the rule for the blocks that
  \<^verbatim>\<open>_saveGeneratedCode\<close> builds.
\<close>

theorem delete_block_removes_range:
  "(\<forall>b fs p. 0 < startLine b \<and> endLine b \<le> int (length (existing_lines fs p)) \<and> writable fs p \<longrightarrow>
      handleFileModification \<lparr>fm_filePath = p, blocks = [b], operation = ''delete''\<rparr> fs =
        Inr ((with_parent fs p)\<lparr>files := (files fs)(p \<mapsto> join_nl
          (take (nat (startLine b - 1)) (existing_lines fs p)
           @ drop (nat (max (endLine b) (startLine b - 1))) (existing_lines fs p)))\<rparr>) \<and>
      (take (nat (startLine b - 1)) (existing_lines fs p)
         @ drop (nat (max (endLine b) (startLine b - 1))) (existing_lines fs p) \<noteq> [] \<longrightarrow>
       map_option split_nl (files (outcome (handleFileModification
           \<lparr>fm_filePath = p, blocks = [b], operation = ''delete''\<rparr> fs)) p) =
         Some (take (nat (startLine b - 1)) (existing_lines fs p)
               @ drop (nat (max (endLine b) (startLine b - 1))) (existing_lines fs p)))) \<and>
   (\<exists>b. startLine b = 2 \<and> endLine b = 2 \<and>
      map_option split_nl (files (outcome (handleFileModification
          \<lparr>fm_filePath = [''out'', ''f.txt''], blocks = [b], operation = ''delete''\<rparr>
          (single_file [''out'', ''f.txt''] (join_nl [''a'', ''b'', ''c'']))))
        [''out'', ''f.txt'']) = Some [''a'', ''c'']) \<and>
   (\<forall>lib m n st. m_operation m = ''delete'' \<and> parseInt (m_startLineStr m) = Some n \<and> 0 < n \<and>
        endLine (code_block_of lib m n)
          \<le> int (length (existing_lines (disk st) (join_output lib (m_filePath m)))) \<and>
        writable (disk st) (join_output lib (m_filePath m)) \<longrightarrow>
      files (disk (process_match lib m st)) (join_output lib (m_filePath m)) =
        Some (join_nl
          (take (nat (n - 1)) (existing_lines (disk st) (join_output lib (m_filePath m)))
           @ drop (nat (endLine (code_block_of lib m n)))
               (existing_lines (disk st) (join_output lib (m_filePath m))))))"
proof (intro conjI allI impI)
  fix b :: CodeBlock and fs p
  assume a: "0 < startLine b \<and> endLine b \<le> int (length (existing_lines fs p)) \<and> writable fs p"
  let ?ls = "existing_lines fs p"
  let ?new = "take (nat (startLine b - 1)) ?ls @ drop (nat (max (endLine b) (startLine b - 1))) ?ls"
  from a show r: "handleFileModification \<lparr>fm_filePath = p, blocks = [b], operation = ''delete''\<rparr> fs =
      Inr ((with_parent fs p)\<lparr>files := (files fs)(p \<mapsto> join_nl ?new)\<rparr>)"
    by (simp add: delete_single)
  assume n: "?new \<noteq> []"
  have "\<forall>l\<in>set ?new. newline \<notin> set l"
    by (auto dest: in_set_takeD in_set_dropD existing_lines_free)
  from split_join [OF n this] r
  show "map_option split_nl (files (outcome (handleFileModification
           \<lparr>fm_filePath = p, blocks = [b], operation = ''delete''\<rparr> fs)) p) = Some ?new"
    by simp
next
  let ?b = "\<lparr>id' = ''b1'', filePath = [''out'', ''f.txt''], startLine = 2, endLine = 2,
             content = ''b'', type' = ''txt''\<rparr>"
  let ?fs = "single_file [''out'', ''f.txt''] (join_nl [''a'', ''b'', ''c''])"
  have "handleFileModification
          \<lparr>fm_filePath = [''out'', ''f.txt''], blocks = [?b], operation = ''delete''\<rparr> ?fs =
        Inr ((with_parent ?fs [''out'', ''f.txt''])\<lparr>files := (files ?fs)([''out'', ''f.txt''] \<mapsto> join_nl
          (take (nat (startLine ?b - 1)) (existing_lines ?fs [''out'', ''f.txt''])
           @ drop (nat (max (endLine ?b) (startLine ?b - 1))) (existing_lines ?fs [''out'', ''f.txt''])))\<rparr>)"
    by (rule delete_single)
       (simp_all add: single_file_def writable_def is_dir_def dirname_def existing_lines_def
          newline_def)
  then have "startLine ?b = 2 \<and> endLine ?b = 2 \<and>
      map_option split_nl (files (outcome (handleFileModification
          \<lparr>fm_filePath = [''out'', ''f.txt''], blocks = [?b], operation = ''delete''\<rparr> ?fs))
        [''out'', ''f.txt'']) = Some [''a'', ''c'']"
    by (simp add: single_file_def existing_lines_def newline_def)
  then show "\<exists>b. startLine b = 2 \<and> endLine b = 2 \<and>
      map_option split_nl (files (outcome (handleFileModification
          \<lparr>fm_filePath = [''out'', ''f.txt''], blocks = [b], operation = ''delete''\<rparr> ?fs))
        [''out'', ''f.txt'']) = Some [''a'', ''c'']"
    by (rule exI [of _ ?b])
next
  fix lib and m :: block_match and n and st :: panel
  assume "m_operation m = ''delete'' \<and> parseInt (m_startLineStr m) = Some n \<and> 0 < n \<and>
        endLine (code_block_of lib m n)
          \<le> int (length (existing_lines (disk st) (join_output lib (m_filePath m)))) \<and>
        writable (disk st) (join_output lib (m_filePath m))"
  then show "files (disk (process_match lib m st)) (join_output lib (m_filePath m)) =
        Some (join_nl
          (take (nat (n - 1)) (existing_lines (disk st) (join_output lib (m_filePath m)))
           @ drop (nat (endLine (code_block_of lib m n)))
               (existing_lines (disk st) (join_output lib (m_filePath m)))))"
    using delete_splice [of m n st lib] by (simp add: code_block_of_def)
qed

theorem delete_block_removes_range_witness:
  "map_option split_nl (files (outcome (handleFileModification
       \<lparr>fm_filePath = [''out'', ''f.txt''],
        blocks = [\<lparr>id' = ''b1'', filePath = [''out'', ''f.txt''], startLine = 2, endLine = 2,
                   content = ''b'', type' = ''txt''\<rparr>],
        operation = ''delete''\<rparr>
       (single_file [''out'', ''f.txt''] (join_nl [''a'', ''b'', ''c'']))))
     [''out'', ''f.txt'']) = Some [''a'', ''c'']"
  using delete_block_removes_range [THEN conjunct1, rule_format, where
      b = "\<lparr>id' = ''b1'', filePath = [''out'', ''f.txt''], startLine = 2, endLine = 2,
                   content = ''b'', type' = ''txt''\<rparr>"
      and p = "[''out'', ''f.txt'']"
      and fs = "single_file [''out'', ''f.txt''] (join_nl [''a'', ''b'', ''c''])"]
  by (simp add: single_file_def writable_def is_dir_def dirname_def existing_lines_def newline_def)

text \<open>
  The blocks that \<^verbatim>\<open>_saveGeneratedCode\<close> builds have their \<open>endLine\<close> above their
  \<open>startLine\<close>, the content having one line at least. A delete block that comes from
  generated text therefore removes two lines or more, and none turns \<open>a\<close>, \<open>b\<close>, \<open>c\<close>
  into \<open>a\<close>, \<open>c\<close>: the block with the range 2 to 2 is a value of
  \<^verbatim>\<open>_handleFileModification\<close> that the one caller in the extension does not pass.
\<close>

lemma no_parsed_delete_of_one_line:
  "\<not> (\<exists>m. m_operation m = ''delete'' \<and>
          lines_at (process_match (node_path [''out'']) m (example_panel [''a'', ''b'', ''c'']))
            [''out'', ''f.txt''] = Some [''a'', ''c''])"
proof
  let ?lib = "node_path [''out'']"
  let ?st = "example_panel [''a'', ''b'', ''c'']"
  let ?F = "[''out'', ''f.txt'']"
  assume "\<exists>m. m_operation m = ''delete'' \<and>
          lines_at (process_match ?lib m ?st) ?F = Some [''a'', ''c'']"
  then obtain m where del: "m_operation m = ''delete''"
    and res: "lines_at (process_match ?lib m ?st) ?F = Some [''a'', ''c'']" by blast
  have before: "lines_at ?st ?F = Some [''a'', ''b'', ''c'']"
    by (simp add: example_defs)
  have ls: "existing_lines (disk ?st) ?F = [''a'', ''b'', ''c'']"
    by (simp add: example_defs)
  have w: "writable (disk ?st) ?F"
    by (simp add: example_defs)
  show False
  proof (cases "parseInt (m_startLineStr m)")
    case None
    then have "process_match ?lib m ?st = ?st" by (simp add: process_match_def)
    with res before show False by simp
  next
    case (Some n)
    let ?p = "join_output ?lib (m_filePath m)"
    let ?k = "int (length (split_nl (trim (m_code m))))"
    show False
    proof (cases "?p = ?F")
      case False
      then have "?F \<noteq> ?p" by simp
      from handle_frame(1) [OF this, of "code_block_of ?lib m n" "m_operation m" "disk ?st"]
      have "files (disk (process_match ?lib m ?st)) ?F = files (disk ?st) ?F"
        by (simp add: process_match_outcome [OF Some])
      then have "lines_at (process_match ?lib m ?st) ?F = lines_at ?st ?F"
        by (simp add: lines_at_def)
      with res before show False by simp
    next
      case True
      show False
      proof (cases "0 < n \<and> n + ?k \<le> 3")
        case False
        with ls True have "int (length (existing_lines (disk ?st) ?p)) < n + ?k \<or> \<not> 0 < n"
          by auto
        then have "\<not> (0 < startLine (code_block_of ?lib m n) \<and>
            endLine (code_block_of ?lib m n) \<le> int (length (existing_lines (disk ?st) ?p)))"
          by (auto simp: code_block_of_def)
        from handle_skip [OF _ _ this, of "m_operation m"] del
        have "files (disk (process_match ?lib m ?st)) = files (disk ?st)"
          by (simp add: process_match_outcome [OF Some])
        then have "lines_at (process_match ?lib m ?st) ?F = lines_at ?st ?F"
          by (simp add: lines_at_def)
        with res before show False by simp
      next
        case inrange: True
        from delete_splice [OF del Some, where lib = ?lib and st = ?st] inrange True ls w
        have r: "files (disk (process_match ?lib m ?st)) ?F =
            Some (join_nl (take (nat (n - 1)) [''a'', ''b'', ''c'']
                           @ drop (nat (n + ?k)) [''a'', ''b'', ''c'']))"
          by simp
        from inrange split_nl_length [of "trim (m_code m)"]
        consider "n = 1" "?k = 1" | "n = 1" "?k = 2" | "n = 2" "?k = 1" by force
        then have "lines_at (process_match ?lib m ?st) ?F \<in> {Some [''c''], Some [[]], Some [''a'']}"
        proof cases
          case 1
          with r show ?thesis by (simp add: lines_at_def newline_def)
        next
          case 2
          with r show ?thesis by (simp add: lines_at_def newline_def)
        next
          case 3
          with r show ?thesis by (simp add: lines_at_def newline_def)
        qed
        with res show False by simp
      qed
    qed
  qed
qed

section \<open>Modify and delete on a file that does not exist\<close>

text \<open>
  Claim C10, as amended. A modify or delete block whose target does not exist creates no
  file and changes no file; it can only add directories, those above the target. A
  block whose operation is neither append nor insert never changes the set of the files.
\<close>

theorem absent_target_creates_no_file:
  assumes "m_operation m = ''modify'' \<or> m_operation m = ''delete''"
    and "files (disk st) (join_output lib (m_filePath m)) = None"
  shows "files (disk (process_match lib m st)) = files (disk st) \<and>
         dirs (disk st) \<subseteq> dirs (disk (process_match lib m st)) \<and>
         dirs (disk (process_match lib m st))
           \<subseteq> dirs (disk st) \<union> set (ancestors (dirname (join_output lib (m_filePath m)))) \<and>
         (\<forall>m' st'. m_operation m' \<noteq> ''append'' \<and> m_operation m' \<noteq> ''insert'' \<longrightarrow>
            dom (files (disk (process_match lib m' st'))) = dom (files (disk st')))"
proof (cases "parseInt (m_startLineStr m)")
  case None
  then have "process_match lib m st = st" by (simp add: process_match_def)
  then show ?thesis by (simp add: process_match_dom)
next
  case (Some n)
  let ?p = "join_output lib (m_filePath m)"
  let ?b = "code_block_of lib m n"
  from assms(1) have o: "m_operation m \<noteq> ''append''" "m_operation m \<noteq> ''insert''" by auto
  from parseInt_nonneg [OF Some] split_nl_length [of "trim (m_code m)"] assms(2)
  have "\<not> (0 < startLine ?b \<and> endLine ?b \<le> int (length (existing_lines (disk st) ?p)))"
    by (simp add: code_block_of_def existing_lines_absent)
  from handle_skip [OF o this] Some
  have "files (disk (process_match lib m st)) = files (disk st)"
    by (simp add: process_match_outcome)
  moreover have "dirs (disk st) \<subseteq> dirs (disk (process_match lib m st))"
    unfolding process_match_outcome [OF Some] by (rule handle_frame(2))
  moreover have "dirs (disk (process_match lib m st))
           \<subseteq> dirs (disk st) \<union> set (ancestors (dirname ?p))"
    unfolding process_match_outcome [OF Some] by (rule handle_frame(3))
  ultimately show ?thesis by (simp add: process_match_dom)
qed

theorem absent_target_creates_no_file_witness:
  "files (disk (process_match (node_path [''out''])
       \<lparr>m_filePath = ''sub/a.txt'', m_blockId = ''b1'', m_startLineStr = ''1'',
        m_operation = ''modify'', m_code = ''x''\<rparr> (fresh_panel empty_disk))) = Map.empty"
  using absent_target_creates_no_file [where m = "\<lparr>m_filePath = ''sub/a.txt'', m_blockId = ''b1'',
        m_startLineStr = ''1'', m_operation = ''modify'', m_code = ''x''\<rparr>"
      and lib = "node_path [''out'']" and st = "fresh_panel empty_disk"]
  by (simp add: example_defs empty_disk_def)


text \<open>
  Claim C10 as stated says that the file system is left unchanged. The directory of the
  target is created before the operation is looked at: here \<^verbatim>\<open>out/sub\<close> is new.
\<close>

theorem absent_target_counterexample:
  "files empty_disk [''out'', ''sub'', ''a.txt''] = None \<and>
   dirs empty_disk = {[''out'']} \<and>
   dirs (disk (process_match (node_path [''out''])
       \<lparr>m_filePath = ''sub/a.txt'', m_blockId = ''b1'', m_startLineStr = ''1'',
        m_operation = ''modify'', m_code = ''x''\<rparr> (fresh_panel empty_disk)))
     = {[''out''], [''out'', ''sub'']}"
  using process_match_writable [where m = "\<lparr>m_filePath = ''sub/a.txt'', m_blockId = ''b1'',
        m_startLineStr = ''1'', m_operation = ''modify'', m_code = ''x''\<rparr>"
      and lib = "node_path [''out'']" and n = 1 and st = "fresh_panel empty_disk"]
  by (auto simp: example_defs empty_disk_def apply_block_def code_block_of_def with_parent_def
      existsSync_def)

section \<open>Lemmas on the driver\<close>

lemma generateResponse_Inr:
  assumes "generateResponse svc sp um g st = Inr (a, st')"
  shows "conversationHistory st' = conversationHistory st @ [user_msg um, assistant_msg a]"
    and "calls st' = calls st @ [g]"
    and "currentIteration st' = currentIteration st"
    and "maxIterations st' = maxIterations st"
  using assms
  by (auto simp: generateResponse_def Let_def user_msg_def assistant_msg_def split: sum.splits)


lemma generateResponse_total:
  assumes "always_answers svc"
  shows "\<exists>a st'. generateResponse svc sp um g st = Inr (a, st')"
proof -
  from assms [unfolded always_answers_def] obtain c where
    "svc (\<lparr>role = System, text_of = sp\<rparr> # conversationHistory (st\<lparr>calls := calls st @ [g]\<rparr>) @
            [\<lparr>role = User, text_of = um\<rparr>]) = Inr c" by blast
  then show ?thesis by (simp add: generateResponse_def Let_def)
qed

lemma round_body_final:
  assumes "\<not> currentIteration st < maxIterations st - 1"
    and "round_body P lib svc prompt request st = Inr (request', st')"
  shows "\<exists>a. conversationHistory st' = conversationHistory st @ [user_msg request, assistant_msg a]"
    and "calls st' = calls st @ [True]"
    and "request' = request"
proof -
  from assms(2) obtain response st1 where
    g: "generateResponse svc (generate_template P
          (if currentIteration st = 0 then prompt else enhance_instruction P)) request True st
        = Inr (response, st1)"
    by (auto simp: round_body_def split: sum.splits)
  let ?st2 = "if response \<noteq> [] then saveGeneratedCode lib response st1 else st1"
  note r = generateResponse_Inr [OF g]
  have c: "currentIteration ?st2 = currentIteration st" "maxIterations ?st2 = maxIterations st"
    "conversationHistory ?st2 = conversationHistory st1" "calls ?st2 = calls st1"
    using r by (simp_all add: saveGeneratedCode_counters)
  with assms g have "request' = request" "st' = ?st2\<lparr>currentIteration := currentIteration ?st2 + 1\<rparr>"
    by (auto simp: round_body_def Let_def split: if_splits)
  with c r show "\<exists>a. conversationHistory st' = conversationHistory st @ [user_msg request, assistant_msg a]"
    and "calls st' = calls st @ [True]" and "request' = request"
    by auto
qed

lemma round_body_review:
  assumes "currentIteration st < maxIterations st - 1"
    and "round_body P lib svc prompt request st = Inr (request', st')"
  shows "\<exists>a b. conversationHistory st' =
           conversationHistory st @ [user_msg request, assistant_msg a, user_msg [], assistant_msg b]"
    and "calls st' = calls st @ [True, False]"
proof -
  from assms(2) obtain response st1 where
    g: "generateResponse svc (generate_template P
          (if currentIteration st = 0 then prompt else enhance_instruction P)) request True st
        = Inr (response, st1)"
    by (auto simp: round_body_def split: sum.splits)
  let ?st2 = "if response \<noteq> [] then saveGeneratedCode lib response st1 else st1"
  note r = generateResponse_Inr [OF g]
  have c: "currentIteration ?st2 = currentIteration st" "maxIterations ?st2 = maxIterations st"
    "conversationHistory ?st2 = conversationHistory st1" "calls ?st2 = calls st1"
    using r by (simp_all add: saveGeneratedCode_counters)
  with assms g obtain review st3 where
    v: "generateResponse svc (review_template P response) [] False ?st2 = Inr (review, st3)"
    and s: "st' = st3\<lparr>currentIteration := currentIteration st3 + 1\<rparr>"
    by (auto simp: round_body_def Let_def split: if_splits sum.splits)
  note r' = generateResponse_Inr [OF v]
  from s r r' c show "\<exists>a b. conversationHistory st' =
           conversationHistory st @ [user_msg request, assistant_msg a, user_msg [], assistant_msg b]"
    and "calls st' = calls st @ [True, False]"
    by auto
qed

lemma round_body_total:
  assumes "always_answers svc"
  shows "\<exists>request' st'. round_body P lib svc prompt request st = Inr (request', st')"
proof -
  from generateResponse_total [OF assms] obtain response st1 where
    g: "generateResponse svc (generate_template P
          (if currentIteration st = 0 then prompt else enhance_instruction P)) request True st
        = Inr (response, st1)" by blast
  let ?st2 = "if response \<noteq> [] then saveGeneratedCode lib response st1 else st1"
  from generateResponse_total [OF assms] obtain review st3 where
    v: "generateResponse svc (review_template P response) [] False ?st2 = Inr (review, st3)"
    by blast
  from g v show ?thesis
    by (simp add: round_body_def Let_def)
qed


lemma alternating_counts:
  "length (filter (\<lambda>g. g) (alternating n)) = n \<and> length (filter Not (alternating n)) = n - 1"
  by (induction n rule: alternating.induct) auto

lemma generateAndReview_calls:
  assumes "always_answers svc"
    and "nat (maxIterations st - currentIteration st) = k"
    and "currentIteration st \<le> maxIterations st"
  shows "\<exists>st'. generateAndReview P lib svc prompt request st = Inr st' \<and>
           calls st' = calls st @ alternating k \<and> currentIteration st' = maxIterations st"
  using assms(2,3)
proof (induction k arbitrary: st request rule: alternating.induct)
  case 1
  then have "\<not> currentIteration st < maxIterations st" by simp
  with 1 show ?case by (simp add: generateAndReview.simps [of P lib svc prompt request st])
next
  case 2
  then have lt: "currentIteration st < maxIterations st"
    and fin: "\<not> currentIteration st < maxIterations st - 1" by simp_all
  from round_body_total [OF assms(1)] obtain request' st1 where
    r: "round_body P lib svc prompt request st = Inr (request', st1)" by blast
  from round_body_counters [OF r] fin lt have "\<not> currentIteration st1 < maxIterations st1"
    and "currentIteration st1 = maxIterations st" by simp_all
  with r lt round_body_final(2) [OF fin r] show ?case
    by (simp add: generateAndReview.simps [of P lib svc prompt request st]
        generateAndReview.simps [of P lib svc prompt request' st1])
next
  case (3 n)
  then have lt: "currentIteration st < maxIterations st"
    and rev: "currentIteration st < maxIterations st - 1" by simp_all
  from round_body_total [OF assms(1)] obtain request' st1 where
    r: "round_body P lib svc prompt request st = Inr (request', st1)" by blast
  note c = round_body_counters [OF r]
  from c 3(2) have "nat (maxIterations st1 - currentIteration st1) = Suc n" by simp
  moreover from c rev have "currentIteration st1 \<le> maxIterations st1" by simp
  ultimately obtain st' where
    "generateAndReview P lib svc prompt request' st1 = Inr st'"
    "calls st' = calls st1 @ alternating (Suc n)" "currentIteration st' = maxIterations st1"
    using 3(1) by blast
  with r lt c round_body_review(2) [OF rev r] show ?case
    by (simp add: generateAndReview.simps [of P lib svc prompt request st])
qed









section \<open>The calls of a run\<close>

text \<open>
  Claim C8. A run with a positive budget \<open>N\<close>, on a service that answers every call,
  ends normally with the iteration counter at \<open>N\<close>, and the calls it made are generate,
  review, generate, ..., generate: \<open>N\<close> generate calls and \<open>N - 1\<close> review calls, none
  behind the last generate call. A run starts when the request is not empty. The
  witness runs the budgets 3 and 1.
\<close>

theorem generate_review_alternation:
  assumes "0 < N" and "codeRequest \<noteq> []" and "always_answers svc"
  shows "\<exists>st'. continueConversation P lib svc codeRequest N st = Inr st' \<and>
           calls st' = calls st @ alternating (nat N) \<and>
           length (filter (\<lambda>isGenerator. isGenerator) (alternating (nat N))) = nat N \<and>
           length (filter (\<lambda>isGenerator. \<not> isGenerator) (alternating (nat N))) = nat N - 1 \<and>
           currentIteration st' = N"
proof -
  let ?st0 = "st\<lparr>maxIterations := N, currentIteration := 0, conversationHistory := []\<rparr>"
  from assms(1) have "nat (maxIterations ?st0 - currentIteration ?st0) = nat N"
    and "currentIteration ?st0 \<le> maxIterations ?st0" by simp_all
  from generateAndReview_calls [OF assms(3) this]
  obtain st' where "generateAndReview P lib svc (generator_template P codeRequest) codeRequest ?st0 = Inr st'"
    "calls st' = calls ?st0 @ alternating (nat N)" "currentIteration st' = maxIterations ?st0"
    by blast
  with assms(1,2) alternating_counts [of "nat N"] show ?thesis
    by (simp add: continueConversation_def startCodeGeneration_def)
qed

theorem generate_review_alternation_witness:
  "(\<exists>st'. continueConversation example_prompts (node_path [''out'']) example_service ''a todo list'' 3
             (fresh_panel empty_disk) = Inr st' \<and>
          calls st' = [True, False, True, False, True]) \<and>
   (\<exists>st'. continueConversation example_prompts (node_path [''out'']) example_service ''a todo list'' 1
             (fresh_panel empty_disk) = Inr st' \<and>
          calls st' = [True])"
  using generate_review_alternation [where N = 3 and codeRequest = "''a todo list''"
      and svc = example_service and P = example_prompts and lib = "node_path [''out'']"
      and st = "fresh_panel empty_disk"]
    generate_review_alternation [where N = 1 and codeRequest = "''a todo list''"
      and svc = example_service and P = example_prompts and lib = "node_path [''out'']"
      and st = "fresh_panel empty_disk"]
  by (auto simp: always_answers_def example_service_def fresh_panel_def numeral_3_eq_3)


section \<open>The transcript\<close>




section \<open>Lemmas on the scan\<close>

lemma lit_append [simp]: "lit p (p @ s) = Some s"
  by (simp add: lit_def)

lemma lit_Cons [simp]: "lit (c # p) (d # s) = (if c = d then lit p s else None)"
  by (simp add: lit_def)

lemma lit_Nil [simp]: "lit [] s = Some s"
  by (simp add: lit_def)

lemma spaces_blank:
  "list_all is_space w \<Longrightarrow> \<not> is_space c \<Longrightarrow> spaces (w @ c # s) = c # s"
  by (induction w) (auto simp: spaces_def)

lemma many1_run:
  "xs \<noteq> [] \<Longrightarrow> list_all P xs \<Longrightarrow> \<not> P c \<Longrightarrow> many1 P (xs @ c # s) = Some (xs, c # s)"
proof -
  assume a: "xs \<noteq> []" "list_all P xs" "\<not> P c"
  then have "takeWhile P (xs @ c # s) = xs" "dropWhile P (xs @ c # s) = c # s"
    by (simp_all add: list_all_iff takeWhile_append2 dropWhile_append2)
  with a(1) show ?thesis by (cases xs) (simp_all add: many1_def)
qed

lemma blank_at: "blanks_ok t \<Longrightarrow> i < 10 \<Longrightarrow> list_all is_space (bt_blank t i)"
  by (simp add: blanks_ok_def list_all_iff)


lemma dashes_replicate: "dashes = replicate 50 CHR ''-''"
  by (simp add: dashes_def numeral_eq_Suc)

lemma length_dashes: "length dashes = 50"
  by (simp add: dashes_replicate)

lemma dashes_Cons: "dashes = CHR ''-'' # replicate 49 CHR ''-''"
  by (simp add: dashes_def numeral_eq_Suc)

lemma lit_dashes_append:
  assumes "lit dashes (f @ t) \<noteq> None"
  shows "lit dashes f \<noteq> None \<or> f = replicate (length f) CHR ''-''"
proof (cases "50 \<le> length f")
  case True
  with assms show ?thesis by (simp add: lit_def length_dashes split: if_splits)
next
  case False
  from assms have "take 50 (f @ t) = dashes" by (simp add: lit_def length_dashes split: if_splits)
  then have "take (length f) (take 50 (f @ t)) = take (length f) dashes" by simp
  with False have "f = take (length f) dashes" by (simp add: min_def)
  with False show ?thesis by (simp add: dashes_replicate min_def)
qed

lemma delimiter_free_Cons:
  assumes "delimiter_free (c # f)"
  shows "lit dashes (c # f @ t) = None" and "delimiter_free f"
proof -
  from assms have l: "last (c # f) \<noteq> CHR ''-''" and n: "lit dashes (c # f) = None"
    and nf: "\<not> contains_dashes f"
    by (auto simp: delimiter_free_def)
  show "lit dashes (c # f @ t) = None"
  proof (rule ccontr)
    assume "lit dashes (c # f @ t) \<noteq> None"
    then have "lit dashes ((c # f) @ t) \<noteq> None" by simp
    from lit_dashes_append [OF this] n have "c # f = replicate (length (c # f)) CHR ''-''" by simp
    then have "last (c # f) = CHR ''-''"
      by (metis last_replicate length_0_conv list.distinct(1))
    with l show False by simp
  qed
  from l nf show "delimiter_free f"
    by (auto simp: delimiter_free_def split: if_splits)
qed

lemma delimiter_free_nowhere: "delimiter_free f \<Longrightarrow> starts_nowhere f t"
  by (induction f) (auto dest: delimiter_free_Cons)

lemma delimiter_free_dropWhile: "delimiter_free f \<Longrightarrow> delimiter_free (dropWhile P f)"
  by (induction f) (auto dest: delimiter_free_Cons(2))

lemma lazy_until_dashes_nowhere:
  "starts_nowhere u (dashes @ r) \<Longrightarrow> lazy_until_dashes (u @ dashes @ r) = Some (u, r)"
proof (induction u)
  case Nil
  have "lazy_until_dashes (dashes @ r) = lazy_until_dashes (CHR ''-'' # replicate 49 CHR ''-'' @ r)"
    by (simp add: dashes_Cons)
  also have "\<dots> = Some ([], r)"
    using lit_append [of dashes r] by (simp add: dashes_Cons del: lit_append lit_Cons)
  finally show ?case by simp
next
  case (Cons c u)
  then show ?case by simp
qed

lemma spaces_before_dashes: "spaces (b @ dashes @ r) = spaces b @ dashes @ r"
proof -
  have "dropWhile is_space (b @ CHR ''-'' # s) = dropWhile is_space b @ CHR ''-'' # s" for s
    by (induction b) (auto simp: is_space_def)
  then show ?thesis by (simp add: spaces_def dashes_Cons)
qed

lemma spaces_blank_digits:
  assumes "list_all is_space w" and "v \<noteq> []" and "list_all is_digit v"
  shows "spaces (w @ v @ s) = v @ s"
proof -
  from assms(2,3) obtain c v' where v: "v = c # v'" and "is_digit c" by (cases v) auto
  then have "\<not> is_space c" by (auto simp: is_digit_def is_space_def)
  with spaces_blank [OF assms(1) this, of "v' @ s"] v show ?thesis by simp
qed

lemma match_here_render:
  assumes "well_formed t"
  shows "match_here (render t @ r) = Some (match_of t, r)"
proof -
  from assms have b: "\<And>i. i < 10 \<Longrightarrow> list_all is_space (bt_blank t i)"
    and f: "bt_file t \<noteq> []" "list_all not_quote (bt_file t)"
    and i: "bt_blockId t \<noteq> []" "list_all not_quote (bt_blockId t)"
    and n: "bt_startLine t \<noteq> []" "list_all is_digit (bt_startLine t)"
    and p: "bt_operation t \<noteq> []" "list_all not_quote (bt_operation t)"
    and d: "delimiter_free (bt_body t)"
    by (auto simp: well_formed_def name_ok_def numeric_def blank_at)
  have q: "\<not> not_quote (CHR 0x22)" "\<not> is_digit CHR '',''"
    "\<not> is_space CHR ''{''" "\<not> is_space (CHR 0x22)" "\<not> is_space CHR ''}''"
    by (simp_all add: not_quote_def is_digit_def is_space_def)
  have body: "lazy_until_dashes (spaces (bt_body t @ dashes @ r)) = Some (spaces (bt_body t), r)"
    using delimiter_free_nowhere [OF delimiter_free_dropWhile [OF d]]
    by (simp add: spaces_before_dashes lazy_until_dashes_nowhere) (simp add: spaces_def lazy_until_dashes_nowhere)
  show ?thesis
    unfolding render_def header_def match_here_def match_of_def
    using b f i n p q body
    by (simp add: spaces_blank spaces_blank_digits many1_run)
qed


lemma saveGeneratedCode_scan:
  "saveGeneratedCode lib blob st = fold (process_match lib) (scan blob) st"
proof (induction lib blob st rule: saveGeneratedCode.induct)
  case (1 lib blob st)
  show ?case
  proof (cases "exec blob")
    case None
    then show ?thesis
      by (simp add: saveGeneratedCode.simps [of lib blob st] scan.simps [of blob])
  next
    case (Some r)
    obtain m rest where r: "r = (m, rest)" by (cases r)
    with Some have e: "exec blob = Some (m, rest)" by simp
    from "1.IH" [OF e refl] e show ?thesis
      by (simp add: saveGeneratedCode.simps [of lib blob st] scan.simps [of blob])
  qed
qed

lemma match_here_needs_dashes: "lit dashes s = None \<Longrightarrow> match_here s = None"
  by (simp add: match_here_def)

lemma exec_nowhere: "starts_nowhere f t \<Longrightarrow> exec (f @ t) = exec t"
  by (induction f) (auto simp: match_here_needs_dashes)

lemma lit_dashes_Nil: "lit dashes [] = None"
  by (simp add: lit_def dashes_def)

lemma exec_at_start: "match_here s = Some r \<Longrightarrow> exec s = Some r"
  using match_here_needs_dashes [OF lit_dashes_Nil] by (cases s) auto

lemma exec_item:
  assumes "delimiter_free filler" and "well_formed t"
  shows "exec (filler @ render t @ r) = Some (match_of t, r)"
  using exec_nowhere [OF delimiter_free_nowhere [OF assms(1)], of "render t @ r"]
    exec_at_start [OF match_here_render [OF assms(2), of r]]
  by simp

lemma scan_blob_of:
  "list_all item_ok items \<Longrightarrow> scan (blob_of items @ r) = map (match_of \<circ> snd) items @ scan r"
proof (induction items)
  case Nil
  then show ?case by (simp add: blob_of_def)
next
  case (Cons a items)
  obtain filler t where a: "a = (filler, t)" by (cases a)
  with Cons.prems have ok: "delimiter_free filler" "well_formed t" "list_all item_ok items"
    by (simp_all add: item_ok_def)
  have "blob_of (a # items) @ r = filler @ render t @ (blob_of items @ r)"
    by (simp add: blob_of_def a)
  with exec_item [OF ok(1,2), of "blob_of items @ r"] Cons.IH [OF ok(3)] a show ?case
    by (simp add: scan.simps [of "filler @ render t @ blob_of items @ r"])
qed

lemma exec_no_dashes: "\<not> contains_dashes s \<Longrightarrow> exec s = None"
  by (induction s) (auto simp: match_here_needs_dashes)

lemma scan_no_dashes: "\<not> contains_dashes s \<Longrightarrow> scan s = []"
  by (simp add: scan.simps [of s] exec_no_dashes)

lemma trim_spaces: "trim (spaces s) = trim s"
  by (simp add: trim_def spaces_def)

lemma parseInt_numeric: "numeric s \<Longrightarrow> parseInt s = Some (digits_value s)"
  by (cases s) (auto simp: numeric_def parseInt_def list_all_iff takeWhile_eq_all_conv [THEN iffD2]
      split: list.splits)


lemma process_match_handle_block:
  "process_match lib m st =
     (case parseInt (m_startLineStr m) of
        None \<Rightarrow> st
      | Some n \<Rightarrow> handle_block (code_block_of lib m n, m_operation m) st)"
  by (simp add: process_match_def handle_block_def Let_def code_block_of_def outcome_def
      split: option.splits sum.splits prod.splits)

lemma saveGeneratedCode_extracted:
  "saveGeneratedCode lib blob st = fold handle_block (extracted lib blob) st"
proof -
  have "fold (process_match lib) ms st =
        fold handle_block (List.map_filter
          (\<lambda>m. case parseInt (m_startLineStr m) of
               None \<Rightarrow> None
             | Some n \<Rightarrow> Some (code_block_of lib m n, m_operation m)) ms) st" for ms
    by (induction ms arbitrary: st)
       (simp_all add: List.map_filter_simps process_match_handle_block split: option.splits)
  then show ?thesis by (simp add: saveGeneratedCode_scan extracted_def)
qed

lemma extracted_endLine:
  assumes "(b, opn) \<in> set (extracted lib blob)"
  shows "\<exists>code. content b = trim code \<and>
           endLine b = startLine b + int (length (split_nl (trim code)))"
proof -
  from assms obtain m n where "b = code_block_of lib m n"
    by (auto simp: extracted_def List.map_filter_def split: option.splits)
  then show ?thesis by (auto simp: code_block_of_def)
qed

lemma example_text_render:
  \<open>render (example_text ''a.txt'' ''2'' ''delete'' ''\<newline>x\<newline>'') =
     ''--------------------------------------------------\<newline>{\<newline>  "file": "a.txt",\<newline>  "blockId": "b1",\<newline>  "startLine": 2,\<newline>  "operation": "delete"\<newline>}\<newline>x\<newline>--------------------------------------------------''\<close>
  by (simp add: render_def header_def example_text_def prompt_layout_def dashes_def)

lemma example_text_ok:
  "name_ok f \<Longrightarrow> numeric n \<Longrightarrow> name_ok opn \<Longrightarrow> delimiter_free body \<Longrightarrow>
     well_formed (example_text f n opn body)"
  by (simp add: well_formed_def example_text_def blanks_ok_def prompt_layout_def is_space_def
      list_all_iff name_ok_def not_quote_def)

lemma many1_numeric: "many1 is_digit s = Some (x, r) \<Longrightarrow> numeric x"
proof -
  assume "many1 is_digit s = Some (x, r)"
  then have "x = takeWhile is_digit s" "x \<noteq> []"
    by (auto simp: many1_def split: list.splits)
  then show ?thesis
    unfolding numeric_def list_all_iff using set_takeWhileD by fast
qed

lemma match_here_numeric: "match_here s = Some (m, r) \<Longrightarrow> numeric (m_startLineStr m)"
  unfolding match_here_def
  by (clarsimp split: bind_splits) (blast dest: many1_numeric)

lemma exec_numeric: "exec s = Some (m, r) \<Longrightarrow> numeric (m_startLineStr m)"
  by (induction s) (auto split: option.splits dest: match_here_numeric)

lemma exec_parses:
  "exec s = Some (m, r) \<Longrightarrow> parseInt (m_startLineStr m) = Some (digits_value (m_startLineStr m))"
  by (rule parseInt_numeric) (rule exec_numeric)

lemma extracted_blob_of:
  assumes "list_all item_ok items" and "\<not> contains_dashes rest"
  shows "extracted lib (blob_of items @ rest) =
           map (\<lambda>(filler, t).
                  (\<lparr>id' = bt_blockId t,
                    filePath = join_output lib (bt_file t),
                    startLine = digits_value (bt_startLine t),
                    endLine = digits_value (bt_startLine t)
                                + int (length (split_nl (trim (bt_body t)))),
                    content = trim (bt_body t),
                    type' = file_type lib (bt_file t)\<rparr>,
                   bt_operation t)) items"
proof -
  have "List.map_filter
       (\<lambda>m. case parseInt (m_startLineStr m) of
               None \<Rightarrow> None
             | Some n \<Rightarrow> Some (code_block_of lib m n, m_operation m))
       (map (match_of \<circ> snd) its) =
     map (\<lambda>(filler, t).
                  (\<lparr>id' = bt_blockId t,
                    filePath = join_output lib (bt_file t),
                    startLine = digits_value (bt_startLine t),
                    endLine = digits_value (bt_startLine t)
                                + int (length (split_nl (trim (bt_body t)))),
                    content = trim (bt_body t),
                    type' = file_type lib (bt_file t)\<rparr>,
                   bt_operation t)) its"
    if "list_all item_ok its" for its
    using that
  proof (induction its)
    case Nil
    show ?case by (simp add: List.map_filter_simps)
  next
    case (Cons a its)
    obtain filler t where a: "a = (filler, t)" by (cases a)
    with Cons.prems have "numeric (bt_startLine t)" "list_all item_ok its"
      by (simp_all add: item_ok_def well_formed_def)
    with Cons.IH a show ?case
      by (simp add: List.map_filter_simps match_of_def parseInt_numeric code_block_of_def
          trim_spaces)
  qed
  with assms show ?thesis
    by (simp add: extracted_def scan_blob_of scan_no_dashes)
qed

section \<open>Blocks with a bad start line\<close>

lemma spaces_blank_token:
  assumes "list_all is_space w" and "plain_token v"
  shows "spaces (w @ v @ CHR '','' # s) = v @ CHR '','' # s"
proof (cases v)
  case Nil
  with spaces_blank [OF assms(1), of "CHR '',''" s] show ?thesis by (simp add: is_space_def)
next
  case (Cons c v')
  with assms(2) have "\<not> is_space c" by (simp add: plain_token_def)
  with spaces_blank [OF assms(1) this, of "v' @ CHR '','' # s"] Cons show ?thesis by simp
qed

lemma digits_fail:
  assumes "plain_token v" and "\<not> numeric v"
  shows "(many1 is_digit (v @ CHR '','' # s) \<bind> (\<lambda>(num, s'). lit '','' s' \<bind> k num)) = None"
proof (cases "list_all is_digit v")
  case True
  with assms(2) have "v = []" by (simp add: numeric_def)
  then show ?thesis by (simp add: many1_def is_digit_def)
next
  case False
  then obtain e where e: "e \<in> set v" "\<not> is_digit e" by (auto simp: list_all_iff)
  then have tw: "takeWhile is_digit (v @ CHR '','' # s) = takeWhile is_digit v"
    and dw: "dropWhile is_digit (v @ CHR '','' # s) = dropWhile is_digit v @ CHR '','' # s"
    by (simp_all add: takeWhile_append1 dropWhile_append1)
  from e have "dropWhile is_digit v \<noteq> []" by (auto simp: dropWhile_eq_Nil_conv)
  then obtain x xs where x: "dropWhile is_digit v = x # xs" by (cases "dropWhile is_digit v") auto
  then have "x \<in> set v" by (metis list.set_intros(1) set_dropWhileD)
  with assms(1) have "x \<noteq> CHR '',''" by (auto simp: plain_token_def list_all_iff)
  with tw dw x show ?thesis
    by (auto simp: many1_def split: list.splits)
qed

lemma match_here_ill:
  assumes "ill_numbered t"
  shows "match_here (render t @ r) = None"
proof -
  from assms have b: "\<And>i. i < 10 \<Longrightarrow> list_all is_space (bt_blank t i)"
    and f: "bt_file t \<noteq> []" "list_all not_quote (bt_file t)"
    and i: "bt_blockId t \<noteq> []" "list_all not_quote (bt_blockId t)"
    and v: "plain_token (bt_startLine t)" "\<not> numeric (bt_startLine t)"
    by (auto simp: ill_numbered_def name_ok_def blank_at)
  have q: "\<not> not_quote (CHR 0x22)" "\<not> is_space CHR ''{''" "\<not> is_space (CHR 0x22)"
    by (simp_all add: not_quote_def is_space_def)
  show ?thesis
    unfolding render_def header_def match_here_def
    using b f i q
    by (simp add: spaces_blank many1_run spaces_blank_token [OF _ v(1)] digits_fail [OF v])
qed


lemma short_dashes_nowhere:
  assumes "t = [] \<or> hd t \<noteq> CHR ''-''" and "k < 50"
  shows "starts_nowhere (replicate k CHR ''-'') t"
  using assms(2)
proof (induction k)
  case 0
  show ?case by simp
next
  case (Suc k)
  have "lit dashes (replicate (Suc k) CHR ''-'' @ t) = None"
  proof (rule ccontr)
    assume "lit dashes (replicate (Suc k) CHR ''-'' @ t) \<noteq> None"
    then have e: "take 50 (replicate (Suc k) CHR ''-'' @ t) = replicate 50 CHR ''-''"
      by (simp add: lit_def length_dashes dashes_replicate split: if_splits)
    show False
    proof (cases t)
      case Nil
      with e Suc.prems have "length (replicate (Suc k) CHR ''-'') = (50::nat)"
        by (metis append_Nil2 length_replicate length_take min.absorb4 take_all_iff
            linorder_not_less order_less_imp_le)
      with Suc.prems show False by simp
    next
      case (Cons c t')
      with assms(1) have c: "c \<noteq> CHR ''-''" by simp
      from e have "take 50 (replicate (Suc k) CHR ''-'' @ t) ! Suc k = replicate 50 CHR ''-'' ! Suc k"
        by simp
      with Suc.prems Cons c show False
        by (simp add: nth_append)
    qed
  qed
  with Suc show ?case by simp
qed

lemma exec_dashes_no_match:
  assumes "match_here (dashes @ t) = None" and "t = [] \<or> hd t \<noteq> CHR ''-''"
  shows "exec (dashes @ t) = exec t"
proof -
  have e: "dashes @ t = CHR ''-'' # (replicate 49 CHR ''-'' @ t)" by (simp add: dashes_Cons)
  have "exec (dashes @ t) = exec (replicate 49 CHR ''-'' @ t)"
    unfolding e using assms(1) [unfolded e] by simp
  with exec_nowhere [OF short_dashes_nowhere [OF assms(2), of 49]] show ?thesis by simp
qed

lemma header_start:
  assumes "blanks_ok t"
  shows "header t @ s \<noteq> [] \<and> hd (header t @ s) \<noteq> CHR ''-''"
proof (cases "bt_blank t 0")
  case Nil
  then show ?thesis by (simp add: header_def)
next
  case (Cons c w)
  with blank_at [OF assms, of 0] have "is_space c" by simp
  then have "c \<noteq> CHR ''-''" by (auto simp: is_space_def)
  with Cons show ?thesis by (simp add: header_def)
qed

lemma match_here_resumes:
  assumes "resumes post"
  shows "match_here (dashes @ post) = None"
proof -
  have "lit ''{'' (spaces post) = None"
  proof (cases "spaces post")
    case Nil
    then show ?thesis by (simp add: lit_def)
  next
    case (Cons c s)
    then have "post \<noteq> []" by (auto simp: spaces_def)
    with assms Cons have "c \<noteq> CHR ''{''" by (simp add: resumes_def)
    with Cons show ?thesis by simp
  qed
  then show ?thesis by (simp add: match_here_def)
qed

lemma exec_ill:
  assumes "ill_numbered t" and "resumes post"
  shows "exec (render t @ post) = exec post"
proof -
  let ?inner = "header t @ bt_body t"
  from assms(1) have b: "blanks_ok t" and d: "delimiter_free ?inner"
    by (simp_all add: ill_numbered_def)
  have r: "render t @ post = dashes @ (?inner @ dashes @ post)" by (simp add: render_def)
  from header_start [OF b, of "bt_body t @ dashes @ post"]
  have "?inner @ dashes @ post = [] \<or> hd (?inner @ dashes @ post) \<noteq> CHR ''-''" by simp
  from exec_dashes_no_match [OF _ this] match_here_ill [OF assms(1), of post] r
  have "exec (render t @ post) = exec (?inner @ dashes @ post)" by simp
  also have "\<dots> = exec (dashes @ post)"
    using exec_nowhere [OF delimiter_free_nowhere [OF d], of "dashes @ post"] by simp
  also have "\<dots> = exec post"
    using assms(2) by (intro exec_dashes_no_match match_here_resumes) (auto simp: resumes_def)
  finally show ?thesis .
qed

lemma scan_cong: "exec a = exec b \<Longrightarrow> scan a = scan b"
  by (simp add: scan.simps [of a] scan.simps [of b])

lemma scan_filler: "delimiter_free f \<Longrightarrow> scan (f @ r) = scan r"
  by (rule scan_cong) (simp add: exec_nowhere delimiter_free_nowhere)

lemma apply_block_no_start:
  assumes "opn \<noteq> ''append''" and "\<not> 0 < startLine b"
  shows "apply_block opn p c b (ls, fs) = Inr (ls, fs)"
  using assms by (auto simp: apply_block_def)

lemma handle_no_start:
  assumes "opn \<noteq> ''append''" and "\<not> 0 < startLine b"
  shows "files (outcome (handleFileModification
            \<lparr>fm_filePath = p, blocks = [b], operation = opn\<rparr> fs)) = files fs"
proof (cases rule: handle_cases [of p b opn fs])
  case (mkdir_failed e)
  then show ?thesis by simp
next
  case (read_failed e fs1)
  with mkdir_step [OF read_failed(1)] show ?thesis by simp
next
  case (applied fs1)
  from apply_block_no_start [OF assms] applied(2) mkdir_step(1) [OF applied(1)]
  show ?thesis by simp
qed

lemmas handle_defs = handle_block_def handleFileModification_def Let_def existsSync_def
  mkdirSync_def read_existing_def readFileSync_def apply_block_def writeFileSync_def
  appendFileSync_def is_dir_def dirname_def outcome_def

lemmas text_defs = item_ok_def example_text_ok name_ok_def numeric_def not_quote_def
  is_digit_def delimiter_free_def lit_def dashes_def

text \<open>
  Claim C3, as amended. A block whose start line is negative or not a number does not
  match the expression: the text with the block and the text without it are handled
  alike, whatever stands before (well-formed blocks and text free of the delimiter) and
  behind. A block whose start line is 0 is matched, and changes no file unless its
  operation is append. The witness has a block with the start line \<open>-1\<close> between two
  append blocks.
\<close>

theorem unparsable_block_skipped:
  assumes "list_all item_ok before" and "delimiter_free filler"
    and "ill_numbered t" and "resumes post"
  shows "saveGeneratedCode lib (blob_of before @ filler @ render t @ post) st =
           saveGeneratedCode lib (blob_of before @ filler @ post) st \<and>
         (\<forall>m st'. parseInt (m_startLineStr m) = Some 0 \<and> m_operation m \<noteq> ''append'' \<longrightarrow>
            files (disk (process_match lib m st')) = files (disk st'))"
proof -
  have "scan (render t @ post) = scan post"
    using assms(3,4) by (intro scan_cong exec_ill)
  with assms(1,2) have "scan (blob_of before @ filler @ render t @ post) =
      scan (blob_of before @ filler @ post)"
    by (simp add: scan_blob_of scan_filler)
  then have "saveGeneratedCode lib (blob_of before @ filler @ render t @ post) st =
           saveGeneratedCode lib (blob_of before @ filler @ post) st"
    by (simp add: saveGeneratedCode_scan)
  moreover have "files (disk (process_match lib m st')) = files (disk st')"
    if "parseInt (m_startLineStr m) = Some 0" "m_operation m \<noteq> ''append''" for m st'
    using that handle_no_start [of "m_operation m" "code_block_of lib m 0"]
    by (simp add: process_match_outcome code_block_of_def)
  ultimately show ?thesis by blast
qed


theorem unparsable_block_skipped_witness:
  "files (disk (saveGeneratedCode (node_path [''out''])
      (blob_of [(''Intro\<newline>'', example_text ''a.txt'' ''1'' ''append'' ''\<newline>hello\<newline>'')]
       @ ''\<newline>''
       @ render (example_text ''a.txt'' ''-1'' ''append'' ''\<newline>lost\<newline>'')
       @ ''\<newline>'' @ render (example_text ''a.txt'' ''1'' ''append'' ''\<newline>world\<newline>''))
      (fresh_panel empty_disk))) [''out'', ''a.txt''] = Some ''hello\<newline>world''"
proof -
  let ?t1 = "example_text ''a.txt'' ''1'' ''append'' ''\<newline>hello\<newline>''"
  let ?bad = "example_text ''a.txt'' ''-1'' ''append'' ''\<newline>lost\<newline>''"
  let ?t2 = "example_text ''a.txt'' ''1'' ''append'' ''\<newline>world\<newline>''"
  let ?lib = "node_path [''out'']"
  have ok1: "list_all item_ok [(''Intro\<newline>'', ?t1)]" by (simp add: text_defs)
  have f: "delimiter_free ''\<newline>''" by (simp add: text_defs)
  have bad: "ill_numbered ?bad"
    by (simp add: ill_numbered_def plain_token_def numeric_def is_digit_def is_space_def
        name_ok_def not_quote_def example_text_def blanks_ok_def prompt_layout_def list_all_iff
        header_def delimiter_free_def lit_def dashes_def)
  have post: "resumes (''\<newline>'' @ render ?t2)"
    by (simp add: resumes_def render_def spaces_def is_space_def dashes_def)
  have same: "saveGeneratedCode ?lib
      (blob_of [(''Intro\<newline>'', ?t1)] @ ''\<newline>'' @ render ?bad @ ''\<newline>'' @ render ?t2)
      (fresh_panel empty_disk) =
    saveGeneratedCode ?lib
      (blob_of [(''Intro\<newline>'', ?t1)] @ ''\<newline>'' @ ''\<newline>'' @ render ?t2)
      (fresh_panel empty_disk)"
    using unparsable_block_skipped [OF ok1 f bad post, of ?lib "fresh_panel empty_disk"]
    by (rule conjunct1)
  have ok2: "list_all item_ok [(''Intro\<newline>'', ?t1), (''\<newline>\<newline>'', ?t2)]"
    by (simp add: text_defs)
  have "extracted ?lib (blob_of [(''Intro\<newline>'', ?t1), (''\<newline>\<newline>'', ?t2)] @ []) =
        [(\<lparr>id' = ''b1'', filePath = [''out'', ''a.txt''], startLine = 1, endLine = 2,
           content = ''hello'', type' = ''txt''\<rparr>, ''append''),
         (\<lparr>id' = ''b1'', filePath = [''out'', ''a.txt''], startLine = 1, endLine = 2,
           content = ''world'', type' = ''txt''\<rparr>, ''append'')]"
    using extracted_blob_of [OF ok2, of "[]" ?lib]
    by (simp add: example_text_def node_path_def file_type_def digits_value_def
          trim_def is_space_def newline_def)
  then have "files (disk (saveGeneratedCode ?lib
      (blob_of [(''Intro\<newline>'', ?t1)] @ ''\<newline>'' @ ''\<newline>'' @ render ?t2)
      (fresh_panel empty_disk))) [''out'', ''a.txt''] = Some ''hello\<newline>world''"
    by (simp add: saveGeneratedCode_extracted blob_of_def)
       (simp add: handle_defs fresh_panel_def empty_disk_def newline_def)
  with same show ?thesis by simp
qed

text \<open>
  Claim C3 as stated includes append: but the append branch of
  \<^verbatim>\<open>_handleFileModification\<close> does not look at the start line, and an append block with
  the start line 0 creates its file.
\<close>

theorem zero_startLine_append_counterexample:
  "files empty_disk [''out'', ''a.txt''] = None \<and>
   files (disk (saveGeneratedCode (node_path [''out''])
      (render (example_text ''a.txt'' ''0'' ''append'' ''\<newline>hello\<newline>''))
      (fresh_panel empty_disk))) [''out'', ''a.txt''] = Some ''hello''"
proof -
  have ok: "list_all item_ok [([], example_text ''a.txt'' ''0'' ''append'' ''\<newline>hello\<newline>'')]"
    by (simp add: text_defs)
  have "extracted (node_path [''out''])
          (blob_of [([], example_text ''a.txt'' ''0'' ''append'' ''\<newline>hello\<newline>'')] @ []) =
        [(\<lparr>id' = ''b1'', filePath = [''out'', ''a.txt''], startLine = 0, endLine = 1,
           content = ''hello'', type' = ''txt''\<rparr>, ''append'')]"
    using extracted_blob_of [OF ok, of "[]" "node_path [''out'']"]
    by (simp add: example_text_def node_path_def file_type_def digits_value_def
          trim_def is_space_def newline_def)
  then show ?thesis
    by (simp add: saveGeneratedCode_extracted blob_of_def)
       (simp add: handle_defs fresh_panel_def empty_disk_def)
qed

section \<open>Extraction\<close>

lemma scan_none: "exec s = None \<Longrightarrow> scan s = []"
  by (simp add: scan.simps [of s])

lemma exec_unmatched:
  assumes "match_here (dashes @ inner @ dashes) = None"
    and "inner \<noteq> []" and "hd inner \<noteq> CHR ''-''" and "delimiter_free inner"
  shows "exec (dashes @ inner @ dashes) = None"
proof -
  from assms(2,3) have "inner @ dashes = [] \<or> hd (inner @ dashes) \<noteq> CHR ''-''" by simp
  from exec_dashes_no_match [OF assms(1) this]
  have "exec (dashes @ inner @ dashes) = exec (inner @ dashes)" .
  also have "\<dots> = exec (dashes @ [])"
    using exec_nowhere [OF delimiter_free_nowhere [OF assms(4)], of dashes] by simp
  also have "\<dots> = exec []"
    by (intro exec_dashes_no_match match_here_resumes) (simp_all add: resumes_def)
  finally show ?thesis by simp
qed

text \<open>
  Claim C1, as amended. A block is well formed when it is written in the layout that the
  expression fixes: the four keys in the order \<^verbatim>\<open>file\<close>, \<^verbatim>\<open>blockId\<close>, \<^verbatim>\<open>startLine\<close>,
  \<^verbatim>\<open>operation\<close>, each with its colon, blanks between the tokens only, names that are not
  empty and hold no double quote, digits for the start line. From a text made of such
  blocks, each after text free of the delimiter, and of such text at the end,
  \<^verbatim>\<open>_saveGeneratedCode\<close> extracts exactly these blocks and hands each to
  \<^verbatim>\<open>_handleFileModification\<close>, in their order from left to right; the content of each is
  the trimmed body, and its \<open>endLine\<close> is its \<open>startLine\<close> plus the number of lines of that
  content. The numbers of the source are doubles, which hold the integers up to \<open>2^53\<close>
  and round the sums above: the theorem speaks of the blocks whose \<open>endLine\<close> is
  \<open>2^53\<close> at most. On every text, the loop handles the extracted blocks in their order,
  and the equation of \<open>endLine\<close> holds for each within that bound. The witness is a
  text with two blocks in the layout of the generator's prompt: an append, then an insert
  at line 1 of what the append wrote.
\<close>

theorem blocks_saved_in_order:
  assumes "list_all item_ok items" and "\<not> contains_dashes rest"
    and "list_all (\<lambda>(filler, t). digits_value (bt_startLine t)
             + int (length (split_nl (trim (bt_body t)))) \<le> 2 ^ 53) items"
  shows "saveGeneratedCode lib (blob_of items @ rest) st =
           fold handle_block
             (map (\<lambda>(filler, t).
                  (\<lparr>id' = bt_blockId t,
                    filePath = join_output lib (bt_file t),
                    startLine = digits_value (bt_startLine t),
                    endLine = digits_value (bt_startLine t)
                                + int (length (split_nl (trim (bt_body t)))),
                    content = trim (bt_body t),
                    type' = file_type lib (bt_file t)\<rparr>,
                   bt_operation t)) items) st \<and>
         extracted lib (blob_of items @ rest) =
           map (\<lambda>(filler, t).
                  (\<lparr>id' = bt_blockId t,
                    filePath = join_output lib (bt_file t),
                    startLine = digits_value (bt_startLine t),
                    endLine = digits_value (bt_startLine t)
                                + int (length (split_nl (trim (bt_body t)))),
                    content = trim (bt_body t),
                    type' = file_type lib (bt_file t)\<rparr>,
                   bt_operation t)) items \<and>
         (\<forall>blob st'. saveGeneratedCode lib blob st' = fold handle_block (extracted lib blob) st') \<and>
         (\<forall>blob b opn. (b, opn) \<in> set (extracted lib blob) \<and>
              startLine b + int (length (split_nl (content b))) \<le> 2 ^ 53 \<longrightarrow>
            (\<exists>code. content b = trim code) \<and>
            endLine b = startLine b + int (length (split_nl (content b))))"
proof -
  note e = extracted_blob_of [OF assms(1,2), of lib]
  have s: "\<forall>blob st'. saveGeneratedCode lib blob st' = fold handle_block (extracted lib blob) st'"
    by (simp add: saveGeneratedCode_extracted)
  have l: "\<forall>blob b opn. (b, opn) \<in> set (extracted lib blob) \<and>
              startLine b + int (length (split_nl (content b))) \<le> 2 ^ 53 \<longrightarrow>
            (\<exists>code. content b = trim code) \<and>
            endLine b = startLine b + int (length (split_nl (content b)))"
    using extracted_endLine [of _ _ lib] by fastforce
  have "saveGeneratedCode lib (blob_of items @ rest) st =
      fold handle_block (extracted lib (blob_of items @ rest)) st"
    by (rule saveGeneratedCode_extracted)
  then show ?thesis
    unfolding e by (rule conjI [OF _ conjI [OF refl conjI [OF s l]]])
qed

theorem blocks_saved_in_order_witness:
  \<open>lines_at (saveGeneratedCode (node_path [''out''])
       ''Here is the code:\<newline>--------------------------------------------------\<newline>{\<newline>  "file": "a.txt",\<newline>  "blockId": "b1",\<newline>  "startLine": 1,\<newline>  "operation": "append"\<newline>}\<newline>hello\<newline>world\<newline>--------------------------------------------------\<newline>--------------------------------------------------\<newline>{\<newline>  "file": "a.txt",\<newline>  "blockId": "b2",\<newline>  "startLine": 1,\<newline>  "operation": "insert"\<newline>}\<newline>x\<newline>--------------------------------------------------\<newline>Done.''
       (fresh_panel empty_disk)) [''out'', ''a.txt''] = Some [''x'', ''hello'', ''world''] \<and>
   extracted (node_path [''out''])
       ''Here is the code:\<newline>--------------------------------------------------\<newline>{\<newline>  "file": "a.txt",\<newline>  "blockId": "b1",\<newline>  "startLine": 1,\<newline>  "operation": "append"\<newline>}\<newline>hello\<newline>world\<newline>--------------------------------------------------\<newline>--------------------------------------------------\<newline>{\<newline>  "file": "a.txt",\<newline>  "blockId": "b2",\<newline>  "startLine": 1,\<newline>  "operation": "insert"\<newline>}\<newline>x\<newline>--------------------------------------------------\<newline>Done.'' =
     [(\<lparr>id' = ''b1'', filePath = [''out'', ''a.txt''], startLine = 1, endLine = 3,
        content = ''hello\<newline>world'', type' = ''txt''\<rparr>, ''append''),
      (\<lparr>id' = ''b2'', filePath = [''out'', ''a.txt''], startLine = 1, endLine = 2,
        content = ''x'', type' = ''txt''\<rparr>, ''insert'')]\<close>
proof -
  let ?t1 = "example_text ''a.txt'' ''1'' ''append'' ''\<newline>hello\<newline>world\<newline>''"
  let ?t2 = "(example_text ''a.txt'' ''1'' ''insert'' ''\<newline>x\<newline>'')\<lparr>bt_blockId := ''b2''\<rparr>"
  let ?items = "[(''Here is the code:\<newline>'', ?t1), (''\<newline>'', ?t2)]"
  let ?lib = "node_path [''out'']"
  let ?bs = "[(\<lparr>id' = ''b1'', filePath = [''out'', ''a.txt''], startLine = 1, endLine = 3,
        content = ''hello\<newline>world'', type' = ''txt''\<rparr>, ''append''),
      (\<lparr>id' = ''b2'', filePath = [''out'', ''a.txt''], startLine = 1, endLine = 2,
        content = ''x'', type' = ''txt''\<rparr>, ''insert'')]"
  have t: \<open>''Here is the code:\<newline>--------------------------------------------------\<newline>{\<newline>  "file": "a.txt",\<newline>  "blockId": "b1",\<newline>  "startLine": 1,\<newline>  "operation": "append"\<newline>}\<newline>hello\<newline>world\<newline>--------------------------------------------------\<newline>--------------------------------------------------\<newline>{\<newline>  "file": "a.txt",\<newline>  "blockId": "b2",\<newline>  "startLine": 1,\<newline>  "operation": "insert"\<newline>}\<newline>x\<newline>--------------------------------------------------\<newline>Done.'' =
      blob_of ?items @ ''\<newline>Done.''\<close>
    by (simp add: blob_of_def render_def header_def example_text_def prompt_layout_def dashes_def)
  have ok: "list_all item_ok ?items"
    by (simp add: item_ok_def well_formed_def example_text_def blanks_ok_def prompt_layout_def
        is_space_def list_all_iff name_ok_def not_quote_def numeric_def is_digit_def
        delimiter_free_def lit_def dashes_def)
  have nd: "\<not> contains_dashes ''\<newline>Done.''"
    by (simp add: lit_def dashes_def)
  have bound: "list_all (\<lambda>(filler, t). digits_value (bt_startLine t)
             + int (length (split_nl (trim (bt_body t)))) \<le> 2 ^ 53) ?items"
    by (simp add: example_text_def digits_value_def trim_def is_space_def newline_def)
  have v: "map (\<lambda>(filler, t).
                  (\<lparr>id' = bt_blockId t,
                    filePath = join_output ?lib (bt_file t),
                    startLine = digits_value (bt_startLine t),
                    endLine = digits_value (bt_startLine t)
                                + int (length (split_nl (trim (bt_body t)))),
                    content = trim (bt_body t),
                    type' = file_type ?lib (bt_file t)\<rparr>,
                   bt_operation t)) ?items = ?bs"
    by (simp add: example_text_def node_path_def file_type_def digits_value_def trim_def
        is_space_def newline_def)
  have f: "lines_at (fold handle_block ?bs (fresh_panel empty_disk)) [''out'', ''a.txt''] =
      Some [''x'', ''hello'', ''world'']"
    by (simp add: handle_defs fresh_panel_def empty_disk_def newline_def array_splice_def
        lines_at_def)
  note r = blocks_saved_in_order [OF ok nd bound, of ?lib "fresh_panel empty_disk", unfolded v]
  from r have a: "saveGeneratedCode ?lib (blob_of ?items @ ''\<newline>Done.'') (fresh_panel empty_disk) =
      fold handle_block ?bs (fresh_panel empty_disk)"
    by (rule conjunct1)
  from r have b: "extracted ?lib (blob_of ?items @ ''\<newline>Done.'') = ?bs"
    by (rule conjunct2 [THEN conjunct1])
  show ?thesis unfolding t a b using f by (rule conjI [OF _ refl])
qed

text \<open>
  Claim C1 as stated takes every delimited block whose object has the four keys. The
  expression fixes their order: a block whose object begins with \<^verbatim>\<open>blockId\<close> is not
  matched, so that nothing is extracted and nothing is written.
\<close>

theorem reordered_keys_counterexample:
  \<open>saveGeneratedCode (node_path [''out''])
     ''--------------------------------------------------\<newline>{\<newline>  "blockId": "b1",\<newline>  "file": "a.txt",\<newline>  "startLine": 1,\<newline>  "operation": "append"\<newline>}\<newline>hello\<newline>--------------------------------------------------''
     (fresh_panel empty_disk) = fresh_panel empty_disk \<and>
   extracted (node_path [''out''])
     ''--------------------------------------------------\<newline>{\<newline>  "blockId": "b1",\<newline>  "file": "a.txt",\<newline>  "startLine": 1,\<newline>  "operation": "append"\<newline>}\<newline>hello\<newline>--------------------------------------------------'' = []\<close>
proof -
  let ?inner = \<open>''\<newline>{\<newline>  "blockId": "b1",\<newline>  "file": "a.txt",\<newline>  "startLine": 1,\<newline>  "operation": "append"\<newline>}\<newline>hello\<newline>''\<close>
  have t: \<open>''--------------------------------------------------\<newline>{\<newline>  "blockId": "b1",\<newline>  "file": "a.txt",\<newline>  "startLine": 1,\<newline>  "operation": "append"\<newline>}\<newline>hello\<newline>--------------------------------------------------'' =
      dashes @ ?inner @ dashes\<close>
    by (simp add: dashes_def)
  have m: "match_here (dashes @ ?inner @ dashes) = None"
    by (simp add: match_here_def spaces_def is_space_def)
  have d: "delimiter_free ?inner"
    by (simp add: delimiter_free_def lit_def dashes_def)
  have "exec (dashes @ ?inner @ dashes) = None"
    using exec_unmatched [OF m _ _ d] by simp
  then have "scan (dashes @ ?inner @ dashes) = []"
    by (rule scan_none)
  then show ?thesis
    unfolding t by (simp add: saveGeneratedCode_scan extracted_def List.map_filter_simps)
qed

end
